theory Spec2Isabelle
  imports Main "HOL-Library.AList"
begin

section \<open>Data model (src/server/new_index.ts, lines 9-121)\<close>

text \<open>
  The two server files (\<^verbatim>\<open>index.ts\<close> and \<^verbatim>\<open>new_index.ts\<close>) hold the same game logic;
  \<^verbatim>\<open>new_index.ts\<close> adds time stamps on lines and persistence. The embedding follows
  \<^verbatim>\<open>new_index.ts\<close>. Numbers of the source that hold coordinates and scores are \<open>int\<close>,
  loop counters and clock values are \<open>nat\<close>. The fields \<^verbatim>\<open>warnings\<close>, \<^verbatim>\<open>soundEnabled\<close> and
  \<^verbatim>\<open>playerNames\<close> of the game state are written once and never read by the game logic; they
  are left out. Calls to the persistence layer (\<^verbatim>\<open>saveGame\<close>, \<^verbatim>\<open>updatePlayerStats\<close>) do not
  change the state and are left out as well. The broadcasts to the clients do not change the
  state either: the functions below return the state, and \<open>makeRandomMove_io\<close> and
  \<open>timerTick_io\<close> give, for the timer, the events it emits and the error it can raise.
\<close>

definition TURN_TIME :: int where
  "TURN_TIME = 30"

definition GRID_SIZE :: nat where
  "GRID_SIZE = 6"

definition TOTAL_BOXES :: nat where
  "TOTAL_BOXES = (GRID_SIZE - 1) * (GRID_SIZE - 1)"

datatype PlayerNumber = P1 | P2

record Coordinates =
  row :: int
  col :: int

record Line =
  start :: Coordinates
  end' :: Coordinates
  player :: PlayerNumber
  timestamp :: "nat option"

record Box =
  topLeft :: Coordinates
  player_box :: PlayerNumber
  id_box :: string

datatype GameStatus = waiting | active | ended

record Scores =
  player1 :: int
  player2 :: int

record GameState =
  lines :: "Line list"
  boxes :: "Box list"
  currentPlayer :: PlayerNumber
  scores :: Scores
  gameStatus :: GameStatus
  winner :: "PlayerNumber option"
  isPaused :: bool
  timeLeft :: int

record Player =
  username :: string
  socketId :: string
  playerNumber :: "PlayerNumber option"
  userId :: "string option"
  phone :: "string option"
  ref :: "string option"

text \<open>
  A JavaScript \<^verbatim>\<open>Map\<close> keeps its keys in insertion order: it is an association list with
  \<open>map_of\<close> for \<^verbatim>\<open>get\<close>, \<open>AList.update\<close> for \<^verbatim>\<open>set\<close> and \<open>AList.delete\<close> for \<^verbatim>\<open>delete\<close>.
  \<^verbatim>\<open>turnTimer\<close> is \<open>True\<close> while an interval is installed.
\<close>

record Room =
  id_room :: string
  players :: "(string \<times> Player) list"
  gameState :: GameState
  turnTimer :: bool
  lastActivityTime :: nat
  gameStartTime :: nat

record Server =
  gameRooms :: "(string \<times> Room) list"
  matchmakingQueue :: "Player list"

section \<open>Board geometry (new_index.ts, lines 335-417)\<close>

text \<open>
  The predicate of \<^verbatim>\<open>findLine\<close> and of \<^verbatim>\<open>isLineAlreadyDrawn\<close>: the line joins the two
  points, in either direction.
\<close>

definition joins :: "Line \<Rightarrow> Coordinates \<Rightarrow> Coordinates \<Rightarrow> bool" where
  "joins line s e \<longleftrightarrow>
     (row (start line) = row s \<and> col (start line) = col s \<and>
      row (end' line) = row e \<and> col (end' line) = col e) \<or>
     (row (start line) = row e \<and> col (start line) = col e \<and>
      row (end' line) = row s \<and> col (end' line) = col s)"

definition isLineAlreadyDrawn :: "GameState \<Rightarrow> Line \<Rightarrow> bool" where
  "isLineAlreadyDrawn gs move = list_ex (\<lambda>line. joins line (start move) (end' move)) (lines gs)"

definition findLine :: "Line list \<Rightarrow> Coordinates \<Rightarrow> Coordinates \<Rightarrow> Line option" where
  "findLine ls s e = List.find (\<lambda>line. joins line s e) ls"

text \<open>
  \<^verbatim>\<open>getAvailableMoves\<close>: the two nested loops push, for each grid point, the horizontal and
  then the vertical candidate when it is not drawn yet.
\<close>

definition horizontalLine :: "GameState \<Rightarrow> nat \<Rightarrow> nat \<Rightarrow> Line" where
  "horizontalLine gs r c =
     \<lparr>start = \<lparr>row = int r, col = int c\<rparr>, end' = \<lparr>row = int r, col = int c + 1\<rparr>,
      player = currentPlayer gs, timestamp = None\<rparr>"

definition verticalLine :: "GameState \<Rightarrow> nat \<Rightarrow> nat \<Rightarrow> Line" where
  "verticalLine gs r c =
     \<lparr>start = \<lparr>row = int r, col = int c\<rparr>, end' = \<lparr>row = int r + 1, col = int c\<rparr>,
      player = currentPlayer gs, timestamp = None\<rparr>"

definition getAvailableMoves :: "GameState \<Rightarrow> Line list" where
  "getAvailableMoves gs =
     concat (map (\<lambda>r. concat (map (\<lambda>c.
         (if c < GRID_SIZE - 1 \<and> \<not> isLineAlreadyDrawn gs (horizontalLine gs r c)
          then [horizontalLine gs r c] else []) @
         (if r < GRID_SIZE - 1 \<and> \<not> isLineAlreadyDrawn gs (verticalLine gs r c)
          then [verticalLine gs r c] else []))
       [0..<GRID_SIZE])) [0..<GRID_SIZE])"

text \<open>
  \<^verbatim>\<open>lines.indexOf(line)\<close>: the scan from position 0 for the first position holding the
  element, or -1. JavaScript
  compares objects by identity; the only arguments \<^verbatim>\<open>checkForBoxes\<close> passes are the objects
  that \<^verbatim>\<open>lines.find\<close> returned, and for those the first position of the object and the first
  position of an equal value are both the position where \<^verbatim>\<open>find\<close> stopped (an earlier equal
  value, or the same object earlier, would have satisfied the predicate of \<^verbatim>\<open>find\<close> first).
\<close>

fun indexOfFrom :: "'a list \<Rightarrow> 'a \<Rightarrow> int \<Rightarrow> int" where
  "indexOfFrom [] x i = - 1"
| "indexOfFrom (y # ys) x i = (if y = x then i else indexOfFrom ys x (i + 1))"

definition indexOf :: "'a list \<Rightarrow> 'a \<Rightarrow> int" where
  "indexOf xs x = indexOfFrom xs x 0"

text \<open>Decimal digits of a loop counter, for the template string of a box id.\<close>

fun toString :: "nat \<Rightarrow> string" where
  "toString n =
     (if n < 10 then [char_of (48 + n)] else toString (n div 10) @ [char_of (48 + n mod 10)])"

text \<open>
  \<^verbatim>\<open>checkForBoxes\<close>. The source draws a fresh random \<^verbatim>\<open>uuidv4()\<close> for each box it pushes; the
  parameter \<open>uuidv4\<close> gives the value of the k-th call of one run, and the body of the loop
  makes its call when \<open>length boxes\<close> calls have been made. \<open>cellBox\<close> is the body of the
  inner loop: it returns the array \<^verbatim>\<open>boxes\<close> as the iteration leaves it.
\<close>

definition latestOf :: "Line list \<Rightarrow> Line \<Rightarrow> Line \<Rightarrow> Line" where
  "latestOf ls latest line = (if indexOf ls line > indexOf ls latest then line else latest)"

definition cellBox :: "(nat \<Rightarrow> string) \<Rightarrow> Line list \<Rightarrow> nat \<Rightarrow> nat \<Rightarrow> Box list \<Rightarrow> Box list" where
  "cellBox uuidv4 ls r c bs =
     (let topLeftC = \<lparr>row = int r, col = int c\<rparr>;
          topRight = \<lparr>row = int r, col = int c + 1\<rparr>;
          bottomLeft = \<lparr>row = int r + 1, col = int c\<rparr>;
          bottomRight = \<lparr>row = int r + 1, col = int c + 1\<rparr>
      in case findLine ls topLeftC topRight of None \<Rightarrow> bs | Some topLine \<Rightarrow>
         (case findLine ls topRight bottomRight of None \<Rightarrow> bs | Some rightLine \<Rightarrow>
         (case findLine ls bottomLeft bottomRight of None \<Rightarrow> bs | Some bottomLine \<Rightarrow>
         (case findLine ls topLeftC bottomLeft of None \<Rightarrow> bs | Some leftLine \<Rightarrow>
            (let lastLine = foldl (latestOf ls) topLine [rightLine, bottomLine, leftLine]
             in bs @ [\<lparr>topLeft = topLeftC, player_box = player lastLine,
                       id_box = ''box-'' @ toString r @ ''-'' @ toString c @ ''-'' @
                                take 8 (uuidv4 (length bs))\<rparr>])))))"

definition checkForBoxes :: "(nat \<Rightarrow> string) \<Rightarrow> Line list \<Rightarrow> Box list" where
  "checkForBoxes uuidv4 ls =
     fold (\<lambda>r. fold (\<lambda>c. cellBox uuidv4 ls r c) [0..<GRID_SIZE - 1]) [0..<GRID_SIZE - 1] []"

section \<open>Rooms (new_index.ts, lines 95-228)\<close>

definition newRoom :: "nat \<Rightarrow> string \<Rightarrow> Room" where
  "newRoom now rid =
     \<lparr>id_room = rid, players = [],
      gameState = \<lparr>lines = [], boxes = [], currentPlayer = P1,
                   scores = \<lparr>player1 = 0, player2 = 0\<rparr>, gameStatus = waiting, winner = None,
                   isPaused = False, timeLeft = TURN_TIME\<rparr>,
      turnTimer = False, lastActivityTime = now, gameStartTime = now\<rparr>"

definition updateActivityTime :: "nat \<Rightarrow> Room \<Rightarrow> Room" where
  "updateActivityTime now room = room\<lparr>lastActivityTime := now\<rparr>"

definition addPlayer :: "nat \<Rightarrow> Player \<Rightarrow> Room \<Rightarrow> Room" where
  "addPlayer now p room =
     updateActivityTime now (room\<lparr>players := AList.update (socketId p) p (players room)\<rparr>)"

definition removePlayer :: "nat \<Rightarrow> string \<Rightarrow> Room \<Rightarrow> Room" where
  "removePlayer now sid room =
     updateActivityTime now (room\<lparr>players := AList.delete sid (players room)\<rparr>)"

definition clearTurnTimer :: "Room \<Rightarrow> Room" where
  "clearTurnTimer room = (if turnTimer room then room\<lparr>turnTimer := False\<rparr> else room)"

definition startTurnTimer :: "Room \<Rightarrow> Room" where
  "startTurnTimer room =
     (let room1 = clearTurnTimer room
      in room1\<lparr>gameState := (gameState room1)\<lparr>timeLeft := TURN_TIME\<rparr>, turnTimer := True\<rparr>)"

text \<open>
  The statements that follow the push of a line are the same in \<^verbatim>\<open>makeRandomMove\<close> (lines
  171-187) and in the \<^verbatim>\<open>make_move\<close> handler (lines 592-608), with
  \<^verbatim>\<open>this.gameState.currentPlayer\<close> in the one and \<^verbatim>\<open>player.playerNumber\<close> in the other as the
  mover: recompute the boxes, add the difference to the mover's score or pass the turn, and
  end the game when every box is closed.
\<close>

definition addScore :: "PlayerNumber \<Rightarrow> int \<Rightarrow> Scores \<Rightarrow> Scores" where
  "addScore mover n sc =
     (case mover of P1 \<Rightarrow> sc\<lparr>player1 := player1 sc + n\<rparr> | P2 \<Rightarrow> sc\<lparr>player2 := player2 sc + n\<rparr>)"

definition scoreMove :: "(nat \<Rightarrow> string) \<Rightarrow> PlayerNumber \<Rightarrow> GameState \<Rightarrow> GameState" where
  "scoreMove uuidv4 mover gs =
     (let newBoxes = checkForBoxes uuidv4 (lines gs);
          boxesCompleted = int (length newBoxes) - int (length (boxes gs));
          gs1 = gs\<lparr>boxes := newBoxes\<rparr>;
          gs2 = (if boxesCompleted > 0
                 then gs1\<lparr>scores := addScore mover boxesCompleted (scores gs1)\<rparr>
                 else gs1\<lparr>currentPlayer := (if mover = P1 then P2 else P1)\<rparr>)
      in if length (boxes gs2) \<ge> TOTAL_BOXES
         then gs2\<lparr>gameStatus := ended,
                  winner := (if player1 (scores gs2) > player2 (scores gs2) then Some P1
                             else if player2 (scores gs2) > player1 (scores gs2) then Some P2
                             else None)\<rparr>
         else gs2)"

text \<open>
  \<^verbatim>\<open>makeRandomMove\<close>. \<open>randomMoveIndex\<close> is the value of
  \<^verbatim>\<open>Math.floor(Math.random() * availableMoves.length)\<close>, which lies below the length. The
  result is the returned line (\<open>None\<close> for \<^verbatim>\<open>null\<close>) and the room as the call leaves it.
\<close>

definition makeRandomMove :: "nat \<Rightarrow> nat \<Rightarrow> (nat \<Rightarrow> string) \<Rightarrow> Room \<Rightarrow> Line option \<times> Room" where
  "makeRandomMove randomMoveIndex now uuidv4 room =
     (let availableMoves = getAvailableMoves (gameState room)
      in if length availableMoves = 0 then (None, room)
         else
           (let randomMove = (availableMoves ! randomMoveIndex)\<lparr>timestamp := Some now\<rparr>;
                gs1 = (gameState room)\<lparr>lines := lines (gameState room) @ [randomMove]\<rparr>;
                room1 = updateActivityTime now (room\<lparr>gameState := gs1\<rparr>)
            in (Some randomMove,
                room1\<lparr>gameState := scoreMove uuidv4 (currentPlayer gs1) gs1\<rparr>)))"

text \<open>One firing of the interval installed by \<^verbatim>\<open>startTurnTimer\<close> (lines 208-227).\<close>

definition timerTick :: "nat \<Rightarrow> nat \<Rightarrow> (nat \<Rightarrow> string) \<Rightarrow> Room \<Rightarrow> Room" where
  "timerTick randomMoveIndex now uuidv4 room =
     (let room1 = room\<lparr>gameState := (gameState room)\<lparr>timeLeft := timeLeft (gameState room) - 1\<rparr>\<rparr>
      in if timeLeft (gameState room1) \<le> 0
         then
           (let room2 = clearTurnTimer room1
            in if gameStatus (gameState room2) = active
               then
                 (let room3 = snd (makeRandomMove randomMoveIndex now uuidv4 room2)
                  in if gameStatus (gameState room3) = active then startTurnTimer room3
                     else room3)
               else room2)
         else room1)"

text \<open>
  What the timer sends and raises. The events are the \<^verbatim>\<open>io.to(this.id).emit\<close> calls of
  \<^verbatim>\<open>makeRandomMove\<close> (lines 189-194; the message of \<^verbatim>\<open>random_move_played\<close> names the current
  player) and of the timer (lines 203-206 and 211-214; \<^verbatim>\<open>progress\<close> is computed from
  \<^verbatim>\<open>timeLeft\<close> and not kept). The only statement of \<^verbatim>\<open>makeRandomMove\<close> that can raise is the
  assignment \<^verbatim>\<open>randomMove.timestamp = new Date()\<close>, a \<^verbatim>\<open>TypeError\<close> when \<^verbatim>\<open>randomMove\<close> is
  \<^verbatim>\<open>undefined\<close>, that is when the index is outside the array.
\<close>

datatype thrown = TypeError

datatype emitted =
  random_move_played Line PlayerNumber
  | game_update GameState
  | timer_update int

definition makeRandomMove_io ::
  "nat \<Rightarrow> nat \<Rightarrow> (nat \<Rightarrow> string) \<Rightarrow> Room \<Rightarrow> thrown + (Line option \<times> Room) \<times> emitted list" where
  "makeRandomMove_io randomMoveIndex now uuidv4 room =
     (let availableMoves = getAvailableMoves (gameState room)
      in if length availableMoves = 0 then Inr ((None, room), [])
         else if length availableMoves \<le> randomMoveIndex then Inl TypeError
         else
           (let r = makeRandomMove randomMoveIndex now uuidv4 room
            in Inr (r, [random_move_played (the (fst r)) (currentPlayer (gameState (snd r))),
                        game_update (gameState (snd r))])))"

definition timerTick_io ::
  "nat \<Rightarrow> nat \<Rightarrow> (nat \<Rightarrow> string) \<Rightarrow> Room \<Rightarrow> thrown + Room \<times> emitted list" where
  "timerTick_io randomMoveIndex now uuidv4 room =
     (let room1 = room\<lparr>gameState := (gameState room)\<lparr>timeLeft := timeLeft (gameState room) - 1\<rparr>\<rparr>;
          e1 = [timer_update (timeLeft (gameState room1))]
      in if timeLeft (gameState room1) \<le> 0
         then
           (let room2 = clearTurnTimer room1
            in if gameStatus (gameState room2) = active
               then
                 (case makeRandomMove_io randomMoveIndex now uuidv4 room2 of
                    Inl t \<Rightarrow> Inl t
                  | Inr (r, e2) \<Rightarrow>
                      if gameStatus (gameState (snd r)) = active
                      then Inr (startTurnTimer (snd r), e1 @ e2 @ [timer_update TURN_TIME])
                      else Inr (snd r, e1 @ e2))
               else Inr (room2, e1))
         else Inr (room1, e1))"

section \<open>Event handlers (new_index.ts, lines 419-659)\<close>

datatype message =
  RoomNotFound | NotInRoom | NotYourTurnOrNotActive | LineAlreadyDrawn
  | AlreadyInQueue | AlreadyInRoom | JoinQueueError | EnteredQueue

record CallbackResponse =
  success :: bool
  message :: "message option"

text \<open>
  The part of the \<^verbatim>\<open>make_move\<close> handler that follows the lookup of the room (lines 575-612).
  A thrown \<^verbatim>\<open>Error\<close> is caught by the handler and answered with
  \<^verbatim>\<open>{success: false, message}\<close>: it is the \<open>Inl\<close> result.
\<close>

definition make_move_room :: "nat \<Rightarrow> (nat \<Rightarrow> string) \<Rightarrow> string \<Rightarrow> Line \<Rightarrow> Room \<Rightarrow> message + Room" where
  "make_move_room now uuidv4 sid move room =
     (case List.find (\<lambda>p. socketId p = sid) (map snd (players room)) of
        None \<Rightarrow> Inl NotInRoom
      | Some p \<Rightarrow>
          if Some (currentPlayer (gameState room)) \<noteq> playerNumber p \<or>
             gameStatus (gameState room) \<noteq> active
          then Inl NotYourTurnOrNotActive
          else if isLineAlreadyDrawn (gameState room) move then Inl LineAlreadyDrawn
          else
            (let room1 = clearTurnTimer room;
                 move1 = move\<lparr>timestamp := Some now\<rparr>;
                 gs1 = (gameState room1)\<lparr>lines := lines (gameState room1) @ [move1]\<rparr>;
                 room2 = updateActivityTime now (room1\<lparr>gameState := gs1\<rparr>);
                 room3 = room2\<lparr>gameState := scoreMove uuidv4 (the (playerNumber p)) gs1\<rparr>
             in Inr (if gameStatus (gameState room3) = active then startTurnTimer room3
                     else room3)))"

definition make_move :: "nat \<Rightarrow> (nat \<Rightarrow> string) \<Rightarrow> string \<Rightarrow> string \<Rightarrow> Line \<Rightarrow> Server \<Rightarrow> message + Server" where
  "make_move now uuidv4 sid roomId move srv =
     (case map_of (gameRooms srv) roomId of
        None \<Rightarrow> Inl RoomNotFound
      | Some room \<Rightarrow>
          (case make_move_room now uuidv4 sid move room of
             Inl m \<Rightarrow> Inl m
           | Inr room' \<Rightarrow> Inr (srv\<lparr>gameRooms := AList.update roomId room' (gameRooms srv)\<rparr>)))"

text \<open>The part of the \<^verbatim>\<open>pause_game\<close> handler that follows the lookup of the room.\<close>

definition pause_game_room :: "nat \<Rightarrow> string \<Rightarrow> Room \<Rightarrow> message + Room" where
  "pause_game_room now sid room =
     (if map_of (players room) sid = None then Inl NotInRoom
      else
        (let gs1 = (gameState room)\<lparr>isPaused := \<not> isPaused (gameState room)\<rparr>;
             room1 = updateActivityTime now (room\<lparr>gameState := gs1\<rparr>)
         in Inr (if isPaused (gameState room1) then clearTurnTimer room1
                 else if gameStatus (gameState room1) = active then startTurnTimer room1
                 else room1)))"

text \<open>What \<^verbatim>\<open>handlePlayerLeaving\<close> does to the room it found (lines 423-438).\<close>

definition handlePlayerLeaving_room :: "nat \<Rightarrow> string \<Rightarrow> Room \<Rightarrow> Room" where
  "handlePlayerLeaving_room now sid room =
     (let room1 = removePlayer now sid room
      in if gameStatus (gameState room1) = active
         then
           (let gs1 = (gameState room1)\<lparr>gameStatus := ended\<rparr>;
                gs2 = (case players room1 of
                         [(k, remainingPlayer)] \<Rightarrow>
                           (case playerNumber remainingPlayer of
                              Some n \<Rightarrow> gs1\<lparr>winner := Some n\<rparr>
                            | None \<Rightarrow> gs1)
                       | _ \<Rightarrow> gs1)
            in clearTurnTimer (room1\<lparr>gameState := gs2\<rparr>))
         else room1)"

text \<open>
  \<^verbatim>\<open>createAndJoinRoom\<close>, whose only call passes the two players taken from the queue.
  \<open>roomId\<close> is the value of its \<^verbatim>\<open>uuidv4()\<close> call.
\<close>

definition startedRoom :: "nat \<Rightarrow> string \<Rightarrow> Player \<Rightarrow> Player \<Rightarrow> Room" where
  "startedRoom now roomId p1 p2 =
     (let room = newRoom now roomId;
          room1 = addPlayer now (p1\<lparr>playerNumber := Some P1\<rparr>) room;
          room2 = addPlayer now (p2\<lparr>playerNumber := Some P2\<rparr>) room1;
          room3 = room2\<lparr>gameState := (gameState room2)\<lparr>gameStatus := active\<rparr>\<rparr>
      in startTurnTimer room3)"

definition createAndJoinRoom :: "nat \<Rightarrow> string \<Rightarrow> Player \<Rightarrow> Player \<Rightarrow> Server \<Rightarrow> Server" where
  "createAndJoinRoom now roomId p1 p2 srv =
     srv\<lparr>gameRooms := AList.update roomId (startedRoom now roomId p1 p2) (gameRooms srv)\<rparr>"

text \<open>
  The \<^verbatim>\<open>join_queue\<close> handler (lines 509-568). The result lists the calls of \<^verbatim>\<open>callback\<close> in
  order. The \<^verbatim>\<open>return\<close> at line 520 stands inside the arrow function given to
  \<^verbatim>\<open>forEach\<close>: it ends that function, one call per room that holds the socket, and the
  handler goes on after the loop. \<open>findOrCreateUser\<close> stands for the lookups in the
  persistence layer (lines 526-542): the user's id and \<^verbatim>\<open>ref\<close>, or \<open>None\<close> when a call throws,
  which the handler catches at line 564.
\<close>

definition join_queue ::
  "(string \<Rightarrow> string \<Rightarrow> (string \<times> string option) option) \<Rightarrow> nat \<Rightarrow> string \<Rightarrow>
   string \<Rightarrow> string \<Rightarrow> string option \<Rightarrow> Server \<Rightarrow> CallbackResponse list \<times> Server" where
  "join_queue findOrCreateUser now roomId sid uname ph srv =
     (if list_ex (\<lambda>p. socketId p = sid) (matchmakingQueue srv)
      then ([\<lparr>success = False, message = Some AlreadyInQueue\<rparr>], srv)
      else
        (let inRoom = map (\<lambda>room. \<lparr>success = False, message = Some AlreadyInRoom\<rparr>)
                        (filter (\<lambda>room. map_of (players room) sid \<noteq> None)
                           (map snd (gameRooms srv)));
             user = (case ph of
                       None \<Rightarrow> Some None
                     | Some n \<Rightarrow> if n = [] then Some None
                                 else map_option Some (findOrCreateUser n uname))
         in case user of
              None \<Rightarrow> (inRoom @ [\<lparr>success = False, message = Some JoinQueueError\<rparr>], srv)
            | Some u \<Rightarrow>
                (let p = \<lparr>username = uname, socketId = sid, playerNumber = None,
                          userId = map_option fst u, phone = ph,
                          ref = (case u of None \<Rightarrow> None | Some d \<Rightarrow> snd d)\<rparr>;
                     srv1 = srv\<lparr>matchmakingQueue := matchmakingQueue srv @ [p]\<rparr>;
                     responses = inRoom @ [\<lparr>success = True, message = Some EnteredQueue\<rparr>]
                 in case matchmakingQueue srv1 of
                      q1 # q2 # rest \<Rightarrow>
                        (responses,
                         createAndJoinRoom now roomId q1 q2 (srv1\<lparr>matchmakingQueue := rest\<rparr>))
                    | _ \<Rightarrow> (responses, srv1))))"

section \<open>Reachable rooms\<close>

text \<open>
  A room starts as \<^verbatim>\<open>createAndJoinRoom\<close> leaves it and changes by accepted moves, firings
  of its timer, pause requests and departures.
\<close>

inductive reachable :: "Room \<Rightarrow> bool" where
  start: "reachable (startedRoom now roomId p1 p2)"
| move: "reachable room \<Longrightarrow> make_move_room now uuidv4 sid mv room = Inr room' \<Longrightarrow> reachable room'"
| tick: "reachable room \<Longrightarrow> turnTimer room \<Longrightarrow>
         getAvailableMoves (gameState room) = [] \<or> k < length (getAvailableMoves (gameState room)) \<Longrightarrow>
         reachable (timerTick k now uuidv4 room)"
| pause: "reachable room \<Longrightarrow> pause_game_room now sid room = Inr room' \<Longrightarrow> reachable room'"
| leave: "reachable room \<Longrightarrow> reachable (handlePlayerLeaving_room now sid room)"

section \<open>Notions used in the statements and proofs\<close>

text \<open>
  The four pairs of corners that \<^verbatim>\<open>checkForBoxes\<close> looks up for the cell with top left
  corner \<open>(r, c)\<close>: top, right, bottom and left edge, in the order of the source.
\<close>

definition cellEdges :: "nat \<Rightarrow> nat \<Rightarrow> (Coordinates \<times> Coordinates) list" where
  "cellEdges r c =
     [(\<lparr>row = int r, col = int c\<rparr>, \<lparr>row = int r, col = int c + 1\<rparr>),
      (\<lparr>row = int r, col = int c + 1\<rparr>, \<lparr>row = int r + 1, col = int c + 1\<rparr>),
      (\<lparr>row = int r + 1, col = int c\<rparr>, \<lparr>row = int r + 1, col = int c + 1\<rparr>),
      (\<lparr>row = int r, col = int c\<rparr>, \<lparr>row = int r + 1, col = int c\<rparr>)]"

text \<open>
  The owner that the body of the loop gives the cell, \<open>None\<close> when it pushes no box: the
  part of \<open>cellBox\<close> that does not depend on the boxes pushed before.
\<close>

definition cellOwner :: "Line list \<Rightarrow> nat \<Rightarrow> nat \<Rightarrow> PlayerNumber option" where
  "cellOwner ls r c =
     (case findLine ls \<lparr>row = int r, col = int c\<rparr> \<lparr>row = int r, col = int c + 1\<rparr> of
        None \<Rightarrow> None | Some topLine \<Rightarrow>
     (case findLine ls \<lparr>row = int r, col = int c + 1\<rparr> \<lparr>row = int r + 1, col = int c + 1\<rparr> of
        None \<Rightarrow> None | Some rightLine \<Rightarrow>
     (case findLine ls \<lparr>row = int r + 1, col = int c\<rparr> \<lparr>row = int r + 1, col = int c + 1\<rparr> of
        None \<Rightarrow> None | Some bottomLine \<Rightarrow>
     (case findLine ls \<lparr>row = int r, col = int c\<rparr> \<lparr>row = int r + 1, col = int c\<rparr> of
        None \<Rightarrow> None | Some leftLine \<Rightarrow>
        Some (player (foldl (latestOf ls) topLine [rightLine, bottomLine, leftLine]))))))"

definition boxKey :: "Box \<Rightarrow> Coordinates \<times> PlayerNumber" where
  "boxKey b = (topLeft b, player_box b)"

definition cellKey :: "Line list \<Rightarrow> nat \<Rightarrow> nat \<Rightarrow> (Coordinates \<times> PlayerNumber) option" where
  "cellKey ls r c = map_option (\<lambda>p. (\<lparr>row = int r, col = int c\<rparr>, p)) (cellOwner ls r c)"

definition closedCount :: "Line list \<Rightarrow> nat" where
  "closedCount ls =
     sum_list (map (\<lambda>r. sum_list (map (\<lambda>c. if cellOwner ls r c = None then 0 else 1)
        [0..<GRID_SIZE - 1])) [0..<GRID_SIZE - 1])"

text \<open>
  An applied move: a move that the \<^verbatim>\<open>make_move\<close> handler accepted, or a line that
  \<^verbatim>\<open>makeRandomMove\<close> returned. The second argument is the line as it was pushed.
\<close>

inductive appliedMove :: "Room \<Rightarrow> Line \<Rightarrow> Room \<Rightarrow> bool" where
  submitted: "make_move_room now uuidv4 sid mv room = Inr room' \<Longrightarrow>
              appliedMove room (mv\<lparr>timestamp := Some now\<rparr>) room'"
| forced: "makeRandomMove k now uuidv4 room = (Some mv, room') \<Longrightarrow> appliedMove room mv room'"

text \<open>
  A move as the server plays it, with the player who moves. Either the \<^verbatim>\<open>make_move\<close>
  handler accepts the move of the player on socket \<open>sid\<close>, or the interval of the turn timer
  fires with one second left in an active game, and \<^verbatim>\<open>makeRandomMove\<close>, called on the room
  after the decrement and \<^verbatim>\<open>clearTurnTimer\<close>, returns a line for the current player; the
  room afterwards is then the room as the firing leaves it.
\<close>

inductive playedMove :: "Room \<Rightarrow> PlayerNumber \<Rightarrow> Line \<Rightarrow> Room \<Rightarrow> bool" where
  by_player: "List.find (\<lambda>p. socketId p = sid) (map snd (players room)) = Some p \<Longrightarrow>
              playerNumber p = Some mover \<Longrightarrow>
              make_move_room now uuidv4 sid mv room = Inr room' \<Longrightarrow>
              playedMove room mover (mv\<lparr>timestamp := Some now\<rparr>) room'"
| by_timer: "turnTimer room \<Longrightarrow> gameStatus (gameState room) = active \<Longrightarrow>
             timeLeft (gameState room) - 1 \<le> 0 \<Longrightarrow>
             fst (makeRandomMove k now uuidv4
                   (clearTurnTimer
                     (room\<lparr>gameState :=
                        (gameState room)\<lparr>timeLeft := timeLeft (gameState room) - 1\<rparr>\<rparr>))) = Some mv \<Longrightarrow>
             playedMove room (currentPlayer (gameState room)) mv (timerTick k now uuidv4 room)"

text \<open>The invariant of the reachable rooms.\<close>

definition scoreInv :: "GameState \<Rightarrow> bool" where
  "scoreInv gs \<longleftrightarrow>
     length (boxes gs) = closedCount (lines gs) \<and>
     player1 (scores gs) + player2 (scores gs) = int (closedCount (lines gs)) \<and>
     (gameStatus gs = active \<longrightarrow> closedCount (lines gs) < TOTAL_BOXES)"

section \<open>Concrete games\<close>

definition uuid0 :: "nat \<Rightarrow> string" where
  "uuid0 k = ''1b9d6bcd-bbfd-4b2d-9b5d-ab8dfbbd4bed''"

definition uuid1 :: "nat \<Rightarrow> string" where
  "uuid1 k = ''6ec0bd7f-11c0-43da-975e-2a8ad9ebae0b''"

definition alice :: Player where
  "alice = \<lparr>username = ''alice'', socketId = ''sock-a'', playerNumber = None, userId = None,
            phone = None, ref = None\<rparr>"

definition bob :: Player where
  "bob = \<lparr>username = ''bob'', socketId = ''sock-b'', playerNumber = None, userId = None,
          phone = None, ref = None\<rparr>"

definition mkLine :: "int \<Rightarrow> int \<Rightarrow> int \<Rightarrow> int \<Rightarrow> PlayerNumber \<Rightarrow> Line" where
  "mkLine r1 c1 r2 c2 p =
     \<lparr>start = \<lparr>row = r1, col = c1\<rparr>, end' = \<lparr>row = r2, col = c2\<rparr>, player = p,
      timestamp = None\<rparr>"

text \<open>
  The scenario of the specification: the four edges of the top left cell, the first three
  drawn by player 1 and the closing one by player 2.
\<close>

definition scenario :: "Line list" where
  "scenario = [mkLine 0 0 0 1 P1, mkLine 0 1 1 1 P1, mkLine 1 1 1 0 P1, mkLine 1 0 0 0 P2]"

text \<open>A game of four accepted moves around the top left cell.\<close>

definition room0 :: Room where
  "room0 = startedRoom 0 ''room-1'' alice bob"

definition room1 :: Room where
  "room1 = projr (make_move_room 1 uuid0 ''sock-a'' (mkLine 0 0 0 1 P1) room0)"

definition room2 :: Room where
  "room2 = projr (make_move_room 2 uuid0 ''sock-b'' (mkLine 0 1 1 1 P2) room1)"

definition room3 :: Room where
  "room3 = projr (make_move_room 3 uuid0 ''sock-a'' (mkLine 1 1 1 0 P1) room2)"

definition room4 :: Room where
  "room4 = projr (make_move_room 4 uuid0 ''sock-b'' (mkLine 1 0 0 0 P2) room3)"

definition srv0 :: Server where
  "srv0 = createAndJoinRoom 0 ''room-1'' alice bob \<lparr>gameRooms = [], matchmakingQueue = []\<rparr>"

text \<open>The server after the first move of that game.\<close>

definition srv1 :: Server where
  "srv1 = \<lparr>gameRooms = [(''room-1'', room1)], matchmakingQueue = []\<rparr>"

text \<open>The same room after \<^verbatim>\<open>pause_game\<close>, and the server that holds it.\<close>

definition pausedRoom :: Room where
  "pausedRoom = projr (pause_game_room 1 ''sock-a'' room0)"

definition srvPaused :: Server where
  "srvPaused = \<lparr>gameRooms = [(''room-1'', pausedRoom)], matchmakingQueue = []\<rparr>"


text \<open>
  A room one edge before the end: every edge but the last one of the bottom row is drawn,
  24 boxes are closed and the score is 12 to 12.
\<close>

definition lastMoveRoom :: Room where
  "lastMoveRoom =
     room0\<lparr>gameState := (gameState room0)
        \<lparr>lines := butlast (getAvailableMoves (gameState room0)),
         boxes := checkForBoxes uuid0 (butlast (getAvailableMoves (gameState room0))),
         scores := \<lparr>player1 = 12, player2 = 12\<rparr>\<rparr>\<rparr>"

definition endedRoom :: Room where
  "endedRoom = projr (make_move_room 9 uuid0 ''sock-a'' (mkLine 5 4 5 5 P1) lastMoveRoom)"

text \<open>
  The started room after 29 firings of its timer: one second is left on the clock of
  player 1.
\<close>

definition lastSecondRoom :: Room where
  "lastSecondRoom = (timerTick 0 0 uuid0 ^^ 29) room0"

text \<open>A persistence layer that knows every phone number.\<close>

definition db0 :: "string \<Rightarrow> string \<Rightarrow> (string \<times> string option) option" where
  "db0 ph uname = Some (''user-1'', None)"

section \<open>Lemmas on the board\<close>

lemma joins_iff: "joins l a b \<longleftrightarrow> {start l, end' l} = {a, b}"
  by (auto simp: joins_def doubleton_eq_iff)

lemma cellBox_key:
  "map boxKey (cellBox u ls r c bs) = map boxKey bs @ (case cellKey ls r c of None \<Rightarrow> [] | Some k \<Rightarrow> [k])"
  by (simp add: cellBox_def cellKey_def cellOwner_def boxKey_def Let_def split: option.splits)

lemma fold_cellBox_key:
  "map boxKey (fold (cellBox u ls r) cs bs) =
     map boxKey bs @ concat (map (\<lambda>c. case cellKey ls r c of None \<Rightarrow> [] | Some k \<Rightarrow> [k]) cs)"
  by (induction cs arbitrary: bs) (simp_all add: cellBox_key)

lemma fold_rows_key:
  "map boxKey (fold (\<lambda>r. fold (cellBox u ls r) cs) rs bs) =
     map boxKey bs @
     concat (map (\<lambda>r. concat (map (\<lambda>c. case cellKey ls r c of None \<Rightarrow> [] | Some k \<Rightarrow> [k]) cs)) rs)"
  by (induction rs arbitrary: bs) (simp_all add: fold_cellBox_key)

lemma checkForBoxes_key:
  "map boxKey (checkForBoxes u ls) =
     concat (map (\<lambda>r. concat (map (\<lambda>c. case cellKey ls r c of None \<Rightarrow> [] | Some k \<Rightarrow> [k])
       [0..<GRID_SIZE - 1])) [0..<GRID_SIZE - 1])"
  by (simp add: checkForBoxes_def fold_rows_key)

lemma indexOfFrom_first:
  "i < length xs \<Longrightarrow> xs ! i = x \<Longrightarrow> (\<forall>j<i. xs ! j \<noteq> x) \<Longrightarrow>
   indexOfFrom xs x n = n + int i"
proof (induction xs arbitrary: i n)
  case Nil
  then show ?case by simp
next
  case (Cons y ys)
  show ?case
  proof (cases i)
    case 0
    with Cons.prems show ?thesis by simp
  next
    case (Suc m)
    with Cons.prems have "y \<noteq> x" by auto
    moreover have "indexOfFrom ys x (n + 1) = (n + 1) + int m"
      using Cons.prems Suc by (intro Cons.IH) auto
    ultimately show ?thesis using Suc by simp
  qed
qed

lemma indexOf_first:
  "i < length xs \<Longrightarrow> xs ! i = x \<Longrightarrow> (\<forall>j<i. xs ! j \<noteq> x) \<Longrightarrow> indexOf xs x = int i"
  using indexOfFrom_first [of i xs x 0] by (simp add: indexOf_def)

lemma findLine_Some:
  assumes "findLine ls s e = Some l"
  shows "\<exists>i<length ls. ls ! i = l \<and> indexOf ls l = int i \<and> joins l s e \<and> (\<forall>j<i. \<not> joins (ls ! j) s e)"
proof -
  from assms obtain i where i: "i < length ls" "joins (ls ! i) s e" "l = ls ! i" "\<forall>j<i. \<not> joins (ls ! j) s e"
    unfolding findLine_def find_Some_iff by blast
  then have "\<forall>j<i. ls ! j \<noteq> l" by auto
  with i have "indexOf ls l = int i" by (intro indexOf_first) auto
  with i show ?thesis by blast
qed

lemma findLine_None: "findLine ls s e = None \<longleftrightarrow> \<not> (\<exists>l\<in>set ls. joins l s e)"
  by (auto simp: findLine_def find_None_iff)

lemma findLine_SomeD: "findLine ls s e = Some l \<Longrightarrow> \<exists>l\<in>set ls. joins l s e"
  by (auto simp: findLine_def find_Some_iff)

lemma cellOwner_Some_iff:
  "(\<exists>p. cellOwner ls r c = Some p) \<longleftrightarrow> (\<forall>(s, e)\<in>set (cellEdges r c). \<exists>l\<in>set ls. joins l s e)"
  by (auto simp: cellOwner_def cellEdges_def findLine_None dest: findLine_SomeD split: option.splits)

lemma latest_of_four:
  fixes it ir ib il :: nat
  assumes "indexOf ls t = int it" "indexOf ls r = int ir" "indexOf ls b = int ib" "indexOf ls l = int il"
    and "ls ! it = t" "ls ! ir = r" "ls ! ib = b" "ls ! il = l"
  shows "\<exists>k\<in>{it, ir, ib, il}. foldl (latestOf ls) t [r, b, l] = ls ! k \<and> it \<le> k \<and> ir \<le> k \<and> ib \<le> k \<and> il \<le> k"
  using assms by (auto simp: latestOf_def)

lemma cellOwner_Some:
  assumes "cellOwner ls r c = Some p"
  shows "\<exists>k<length ls. p = player (ls ! k) \<and>
           (\<exists>(s, e)\<in>set (cellEdges r c). joins (ls ! k) s e \<and> (\<forall>j<k. \<not> joins (ls ! j) s e)) \<and>
           (\<forall>(s, e)\<in>set (cellEdges r c). \<exists>i\<le>k. joins (ls ! i) s e)"
proof -
  let ?tl = "\<lparr>row = int r, col = int c\<rparr>" and ?tr = "\<lparr>row = int r, col = int c + 1\<rparr>"
  let ?bl = "\<lparr>row = int r + 1, col = int c\<rparr>" and ?br = "\<lparr>row = int r + 1, col = int c + 1\<rparr>"
  from assms obtain t ri b l where
    f: "findLine ls ?tl ?tr = Some t" "findLine ls ?tr ?br = Some ri"
       "findLine ls ?bl ?br = Some b" "findLine ls ?tl ?bl = Some l"
    and p: "p = player (foldl (latestOf ls) t [ri, b, l])"
    by (auto simp: cellOwner_def split: option.splits)
  from findLine_Some [OF f(1)] obtain it where
    it: "it < length ls" "ls ! it = t" "indexOf ls t = int it" "joins t ?tl ?tr" "\<forall>j<it. \<not> joins (ls ! j) ?tl ?tr"
    by blast
  from findLine_Some [OF f(2)] obtain ir where
    ir: "ir < length ls" "ls ! ir = ri" "indexOf ls ri = int ir" "joins ri ?tr ?br" "\<forall>j<ir. \<not> joins (ls ! j) ?tr ?br"
    by blast
  from findLine_Some [OF f(3)] obtain ib where
    ib: "ib < length ls" "ls ! ib = b" "indexOf ls b = int ib" "joins b ?bl ?br" "\<forall>j<ib. \<not> joins (ls ! j) ?bl ?br"
    by blast
  from findLine_Some [OF f(4)] obtain il where
    il: "il < length ls" "ls ! il = l" "indexOf ls l = int il" "joins l ?tl ?bl" "\<forall>j<il. \<not> joins (ls ! j) ?tl ?bl"
    by blast
  from latest_of_four [OF it(3) ir(3) ib(3) il(3) it(2) ir(2) ib(2) il(2)]
  obtain k where k: "k \<in> {it, ir, ib, il}" "foldl (latestOf ls) t [ri, b, l] = ls ! k"
    "it \<le> k" "ir \<le> k" "ib \<le> k" "il \<le> k"
    by blast
  have "k < length ls" using k(1) it(1) ir(1) ib(1) il(1) by auto
  moreover have "p = player (ls ! k)" using p k(2) by simp
  moreover have "\<exists>(s, e)\<in>set (cellEdges r c). joins (ls ! k) s e \<and> (\<forall>j<k. \<not> joins (ls ! j) s e)"
    using k(1) it(2,4,5) ir(2,4,5) ib(2,4,5) il(2,4,5) by (auto simp: cellEdges_def)
  moreover have "\<forall>(s, e)\<in>set (cellEdges r c). \<exists>i\<le>k. joins (ls ! i) s e"
    using k(3-6) it(2,4) ir(2,4) ib(2,4) il(2,4) by (auto simp: cellEdges_def)
  ultimately show ?thesis by blast
qed

lemma boxes_of_cell:
  "(\<exists>b\<in>set (checkForBoxes u ls). topLeft b = \<lparr>row = int r, col = int c\<rparr> \<and> player_box b = p) \<longleftrightarrow>
     r < GRID_SIZE - 1 \<and> c < GRID_SIZE - 1 \<and> cellOwner ls r c = Some p"
proof -
  have "(\<exists>b\<in>set (checkForBoxes u ls). topLeft b = \<lparr>row = int r, col = int c\<rparr> \<and> player_box b = p) \<longleftrightarrow>
        (\<lparr>row = int r, col = int c\<rparr>, p) \<in> set (map boxKey (checkForBoxes u ls))"
    by (force simp: boxKey_def image_iff)
  also have "\<dots> \<longleftrightarrow> r < GRID_SIZE - 1 \<and> c < GRID_SIZE - 1 \<and> cellOwner ls r c = Some p"
    unfolding checkForBoxes_key by (auto simp: cellKey_def split: option.splits)
  finally show ?thesis .
qed

lemma length_cell:
  "length (case cellKey ls r c of None \<Rightarrow> [] | Some k \<Rightarrow> [k]) = (if cellOwner ls r c = None then 0 else 1)"
  by (cases "cellOwner ls r c") (simp_all add: cellKey_def)

lemma length_checkForBoxes: "length (checkForBoxes u ls) = closedCount ls"
proof -
  have "length (checkForBoxes u ls) = length (map boxKey (checkForBoxes u ls))" by simp
  also have "\<dots> = closedCount ls"
    unfolding checkForBoxes_key closedCount_def
    by (simp add: length_concat comp_def length_cell)
  finally show ?thesis .
qed

lemma cellOwner_append:
  "cellOwner ls r c \<noteq> None \<Longrightarrow> cellOwner (ls @ [x]) r c \<noteq> None"
  using cellOwner_Some_iff [of ls r c] cellOwner_Some_iff [of "ls @ [x]" r c] by fastforce

lemma closedCount_append: "closedCount ls \<le> closedCount (ls @ [x])"
proof -
  have "(if cellOwner ls r c = None then 0 else 1) \<le> (if cellOwner (ls @ [x]) r c = None then 0 else (1::nat))"
    for r c
    using cellOwner_append [of ls r c x] by simp
  then show ?thesis
    unfolding closedCount_def by (intro sum_list_mono) blast
qed

lemma closedCount_all:
  assumes "\<And>r c. r < GRID_SIZE - 1 \<Longrightarrow> c < GRID_SIZE - 1 \<Longrightarrow> cellOwner ls r c \<noteq> None"
  shows "closedCount ls = TOTAL_BOXES"
proof -
  have "closedCount ls = sum_list (map (\<lambda>r. sum_list (map (\<lambda>c. 1) [0..<GRID_SIZE - 1])) [0..<GRID_SIZE - 1])"
    unfolding closedCount_def using assms by (auto intro!: arg_cong [where f = sum_list] map_cong)
  also have "\<dots> = TOTAL_BOXES"
    by (simp add: TOTAL_BOXES_def sum_list_triv)
  finally show ?thesis .
qed

lemma isLineAlreadyDrawn_iff:
  "isLineAlreadyDrawn gs mv \<longleftrightarrow> (\<exists>l\<in>set (lines gs). joins l (start mv) (end' mv))"
  by (simp add: isLineAlreadyDrawn_def list_ex_iff)

lemma no_moves_drawn:
  assumes "getAvailableMoves gs = []"
  shows "r < GRID_SIZE \<Longrightarrow> c < GRID_SIZE - 1 \<Longrightarrow> isLineAlreadyDrawn gs (horizontalLine gs r c)"
    and "r < GRID_SIZE - 1 \<Longrightarrow> c < GRID_SIZE \<Longrightarrow> isLineAlreadyDrawn gs (verticalLine gs r c)"
  using assms unfolding getAvailableMoves_def by (auto split: if_splits)

lemma no_moves_closed:
  assumes "getAvailableMoves gs = []" "r < GRID_SIZE - 1" "c < GRID_SIZE - 1"
  shows "cellOwner (lines gs) r c \<noteq> None"
proof -
  have "isLineAlreadyDrawn gs (horizontalLine gs r c)" "isLineAlreadyDrawn gs (horizontalLine gs (Suc r) c)"
    "isLineAlreadyDrawn gs (verticalLine gs r c)" "isLineAlreadyDrawn gs (verticalLine gs r (Suc c))"
    using assms by (auto intro!: no_moves_drawn)
  then have "\<forall>(s, e)\<in>set (cellEdges r c). \<exists>l\<in>set (lines gs). joins l s e"
    by (simp add: isLineAlreadyDrawn_iff horizontalLine_def verticalLine_def cellEdges_def add.commute)
  then show ?thesis using cellOwner_Some_iff [of "lines gs" r c] by auto
qed

lemma no_moves_all_boxes:
  "getAvailableMoves gs = [] \<Longrightarrow> length (checkForBoxes u (lines gs)) = TOTAL_BOXES"
  by (simp add: length_checkForBoxes closedCount_all no_moves_closed)

section \<open>Lemmas on moves and rooms\<close>

lemma addScore_sum: "player1 (addScore m n sc) + player2 (addScore m n sc) = player1 sc + player2 sc + n"
  by (cases m) (simp_all add: addScore_def)

lemma scoreMove_fields:
  "lines (scoreMove u m gs) = lines gs"
  "boxes (scoreMove u m gs) = checkForBoxes u (lines gs)"
  "isPaused (scoreMove u m gs) = isPaused gs"
  "timeLeft (scoreMove u m gs) = timeLeft gs"
  by (simp_all add: scoreMove_def Let_def)

lemma scoreMove_capture:
  assumes "length (boxes gs) < closedCount (lines gs)"
  shows "scores (scoreMove u m gs) = addScore m (int (closedCount (lines gs)) - int (length (boxes gs))) (scores gs)"
    and "currentPlayer (scoreMove u m gs) = currentPlayer gs"
  using assms by (simp_all add: scoreMove_def Let_def length_checkForBoxes)

lemma scoreMove_no_capture:
  assumes "closedCount (lines gs) \<le> length (boxes gs)"
  shows "scores (scoreMove u m gs) = scores gs"
    and "currentPlayer (scoreMove u m gs) = (if m = P1 then P2 else P1)"
  using assms by (simp_all add: scoreMove_def Let_def length_checkForBoxes)

lemma scoreMove_end:
  assumes "TOTAL_BOXES \<le> closedCount (lines gs)"
  shows "gameStatus (scoreMove u m gs) = ended"
    and "winner (scoreMove u m gs) =
           (if player1 (scores (scoreMove u m gs)) > player2 (scores (scoreMove u m gs)) then Some P1
            else if player2 (scores (scoreMove u m gs)) > player1 (scores (scoreMove u m gs)) then Some P2
            else None)"
  using assms by (simp_all add: scoreMove_def Let_def length_checkForBoxes)

lemma scoreMove_go_on:
  assumes "closedCount (lines gs) < TOTAL_BOXES"
  shows "gameStatus (scoreMove u m gs) = gameStatus gs" and "winner (scoreMove u m gs) = winner gs"
  using assms by (simp_all add: scoreMove_def Let_def length_checkForBoxes)

lemma scoreMove_inv:
  assumes "scoreInv gs"
  shows "scoreInv (scoreMove u m (gs\<lparr>lines := lines gs @ [mv]\<rparr>))"
proof -
  let ?gs1 = "gs\<lparr>lines := lines gs @ [mv]\<rparr>"
  let ?n = "closedCount (lines gs)" and ?n' = "closedCount (lines gs @ [mv])"
  have le: "?n \<le> ?n'" by (rule closedCount_append)
  have b: "length (boxes ?gs1) = ?n" using assms by (simp add: scoreInv_def)
  have s: "player1 (scores ?gs1) + player2 (scores ?gs1) = int ?n" using assms by (simp add: scoreInv_def)
  have sum: "player1 (scores (scoreMove u m ?gs1)) + player2 (scores (scoreMove u m ?gs1)) = int ?n'"
  proof (cases "?n < ?n'")
    case True
    then have "length (boxes ?gs1) < closedCount (lines ?gs1)" using b by simp
    from scoreMove_capture(1) [OF this, of u m] show ?thesis
      using s b by (simp add: addScore_sum)
  next
    case False
    with le have eq: "?n' = ?n" by simp
    then have "closedCount (lines ?gs1) \<le> length (boxes ?gs1)" using b by simp
    from scoreMove_no_capture(1) [OF this, of u m] show ?thesis using s eq by simp
  qed
  have act: "gameStatus (scoreMove u m ?gs1) = active \<longrightarrow> ?n' < TOTAL_BOXES"
  proof (cases "?n' < TOTAL_BOXES")
    case True
    then show ?thesis by simp
  next
    case False
    then have "TOTAL_BOXES \<le> closedCount (lines ?gs1)" by simp
    from scoreMove_end(1) [OF this, of u m] show ?thesis by simp
  qed
  show ?thesis
    unfolding scoreInv_def using sum act
    by (simp add: scoreMove_fields length_checkForBoxes)
qed

lemma gameState_timer [simp]:
  "gameState (clearTurnTimer room) = gameState room"
  "gameState (updateActivityTime now room) = gameState room"
  "gameState (startTurnTimer room) = (gameState room)\<lparr>timeLeft := TURN_TIME\<rparr>"
  by (simp_all add: clearTurnTimer_def updateActivityTime_def startTurnTimer_def Let_def)

lemma make_move_room_Inr:
  assumes "make_move_room now u sid mv room = Inr room'"
  shows "\<exists>p. List.find (\<lambda>p. socketId p = sid) (map snd (players room)) = Some p \<and>
              playerNumber p = Some (currentPlayer (gameState room))"
    and "gameStatus (gameState room) = active"
    and "\<not> isLineAlreadyDrawn (gameState room) mv"
    and "gameState room' =
           (let g = scoreMove u (currentPlayer (gameState room))
                      ((gameState room)\<lparr>lines := lines (gameState room) @ [mv\<lparr>timestamp := Some now\<rparr>]\<rparr>)
            in if gameStatus g = active then g\<lparr>timeLeft := TURN_TIME\<rparr> else g)"
proof -
  from assms obtain p where p: "List.find (\<lambda>p. socketId p = sid) (map snd (players room)) = Some p"
    by (auto simp: make_move_room_def split: option.splits)
  with assms have ok: "playerNumber p = Some (currentPlayer (gameState room))"
    "gameStatus (gameState room) = active" "\<not> isLineAlreadyDrawn (gameState room) mv"
    by (auto simp: make_move_room_def split: if_splits)
  show "\<exists>p. List.find (\<lambda>p. socketId p = sid) (map snd (players room)) = Some p \<and>
              playerNumber p = Some (currentPlayer (gameState room))"
    using p ok(1) by blast
  show "gameStatus (gameState room) = active" by (rule ok(2))
  show "\<not> isLineAlreadyDrawn (gameState room) mv" by (rule ok(3))
  show "gameState room' =
           (let g = scoreMove u (currentPlayer (gameState room))
                      ((gameState room)\<lparr>lines := lines (gameState room) @ [mv\<lparr>timestamp := Some now\<rparr>]\<rparr>)
            in if gameStatus g = active then g\<lparr>timeLeft := TURN_TIME\<rparr> else g)"
    using assms p ok by (auto simp: make_move_room_def Let_def)
qed

lemma makeRandomMove_Some:
  assumes "makeRandomMove k now u room = (Some mv, room')"
  shows "getAvailableMoves (gameState room) \<noteq> []"
    and "gameState room' =
           scoreMove u (currentPlayer (gameState room))
             ((gameState room)\<lparr>lines := lines (gameState room) @ [mv]\<rparr>)"
  using assms
  by (auto simp: makeRandomMove_def Let_def split: if_splits)

lemma makeRandomMove_None:
  "getAvailableMoves (gameState room) = [] \<Longrightarrow> makeRandomMove k now u room = (None, room)"
  by (simp add: makeRandomMove_def)

lemma makeRandomMove_fst:
  "getAvailableMoves (gameState room) \<noteq> [] \<Longrightarrow> fst (makeRandomMove k now u room) \<noteq> None"
  by (simp add: makeRandomMove_def Let_def)

lemma appliedMove_state:
  assumes "appliedMove room mv room'"
  shows "\<exists>u. let g = scoreMove u (currentPlayer (gameState room))
                      ((gameState room)\<lparr>lines := lines (gameState room) @ [mv]\<rparr>)
              in gameState room' = g \<or> gameState room' = g\<lparr>timeLeft := TURN_TIME\<rparr>"
  using assms
proof cases
  case (submitted now u sid mv0)
  from make_move_room_Inr(4) [OF submitted(2)] show ?thesis
    unfolding submitted(1) Let_def by (intro exI [of _ u]) (simp split: if_splits)
next
  case (forced k now u)
  from makeRandomMove_Some(2) [OF forced] show ?thesis
    by (intro exI [of _ u]) (simp add: Let_def)
qed

lemma closedCount_Nil: "closedCount [] = 0"
  by (simp add: closedCount_def cellOwner_def findLine_def)

lemma scoreInv_start: "scoreInv (gameState (startedRoom now rid p1 p2))"
  by (simp add: startedRoom_def newRoom_def addPlayer_def Let_def scoreInv_def closedCount_Nil
      TOTAL_BOXES_def GRID_SIZE_def)

lemma scoreInv_makeRandomMove:
  assumes "scoreInv (gameState room)"
  shows "scoreInv (gameState (snd (makeRandomMove k now u room)))"
proof (cases "getAvailableMoves (gameState room) = []")
  case True
  then show ?thesis using assms by (simp add: makeRandomMove_None)
next
  case False
  then show ?thesis
    using assms by (simp add: makeRandomMove_def Let_def scoreMove_inv)
qed

lemma scoreInv_timeLeft: "scoreInv (gs\<lparr>timeLeft := t\<rparr>) = scoreInv gs"
  by (simp add: scoreInv_def)

lemma scoreInv_timerTick:
  assumes "scoreInv (gameState room)"
  shows "scoreInv (gameState (timerTick k now u room))"
proof -
  let ?room1 = "room\<lparr>gameState := (gameState room)\<lparr>timeLeft := timeLeft (gameState room) - 1\<rparr>\<rparr>"
  have 1: "scoreInv (gameState (clearTurnTimer ?room1))"
    using assms by (simp add: scoreInv_timeLeft)
  from scoreInv_makeRandomMove [OF this]
  have 2: "scoreInv (gameState (snd (makeRandomMove k now u (clearTurnTimer ?room1))))" .
  show ?thesis
    unfolding timerTick_def Let_def using assms 1 2
    by (auto simp: scoreInv_timeLeft)
qed

lemma scoreInv_reachable: "reachable room \<Longrightarrow> scoreInv (gameState room)"
proof (induction rule: reachable.induct)
  case (start now roomId p1 p2)
  show ?case by (rule scoreInv_start)
next
  case (move room now u sid mv room')
  from make_move_room_Inr(4) [OF move(2)] scoreMove_inv [OF move(3)]
  show ?case by (auto simp: Let_def scoreInv_timeLeft split: if_splits)
next
  case (tick room k now u)
  then show ?case by (simp add: scoreInv_timerTick)
next
  case (pause room now sid room')
  then show ?case
    by (auto simp: pause_game_room_def Let_def scoreInv_def split: if_splits)
next
  case (leave room now sid)
  then show ?case
    by (auto simp: handlePlayerLeaving_room_def removePlayer_def Let_def scoreInv_def clearTurnTimer_def
        updateActivityTime_def split: list.splits option.splits)
qed

section \<open>The claims\<close>

text \<open>
  C6. \<^verbatim>\<open>checkForBoxes\<close> is deterministic in what it reports: two runs on the same lines,
  whatever values their \<^verbatim>\<open>uuidv4()\<close> calls return, give the same cells in the same order, each
  with the same owner. (The random part of a run is the \<^verbatim>\<open>id\<close> string of a box, which the
  claim leaves out; the example that follows shows two runs that differ there and nowhere
  else.)
\<close>

theorem checkForBoxes_deterministic:
  "map (\<lambda>b. (topLeft b, player_box b)) (checkForBoxes uuidv4 ls) =
   map (\<lambda>b. (topLeft b, player_box b)) (checkForBoxes uuidv4' ls)"
  using checkForBoxes_key [of uuidv4 ls] checkForBoxes_key [of uuidv4' ls]
  by (simp add: boxKey_def [abs_def])

theorem checkForBoxes_deterministic_witness:
  "map (\<lambda>b. (topLeft b, player_box b)) (checkForBoxes uuid0 scenario) =
     map (\<lambda>b. (topLeft b, player_box b)) (checkForBoxes uuid1 scenario) \<and>
   map (\<lambda>b. (topLeft b, player_box b)) (checkForBoxes uuid0 scenario) = [(\<lparr>row = 0, col = 0\<rparr>, P2)] \<and>
   map id_box (checkForBoxes uuid0 scenario) = [''box-0-0-1b9d6bcd''] \<and>
   map id_box (checkForBoxes uuid1 scenario) = [''box-0-0-6ec0bd7f'']"
proof -
  have same: "map (\<lambda>b. (topLeft b, player_box b)) (checkForBoxes uuid0 scenario) =
     map (\<lambda>b. (topLeft b, player_box b)) (checkForBoxes uuid1 scenario)"
    by (rule checkForBoxes_deterministic)
  have v: "map (\<lambda>b. (topLeft b, player_box b)) (checkForBoxes uuid0 scenario) = [(\<lparr>row = 0, col = 0\<rparr>, P2)]"
    by code_simp
  have i0: "map id_box (checkForBoxes uuid0 scenario) = [''box-0-0-1b9d6bcd'']"
    by code_simp
  have i1: "map id_box (checkForBoxes uuid1 scenario) = [''box-0-0-6ec0bd7f'']"
    by code_simp
  show ?thesis using same v i0 i1 by blast
qed

lemma cellEdges_joins:
  "(\<forall>(s, e)\<in>set (cellEdges r c). \<exists>l\<in>set ls. joins l s e) \<longleftrightarrow>
   (\<forall>(s, e)\<in>set (cellEdges r c). \<exists>l\<in>set ls. {start l, end' l} = {s, e})"
  by (simp add: joins_iff)

text \<open>
  C3. For every line sequence and every cell \<open>(r, c)\<close> of the 5 x 5 cell grid,
  \<^verbatim>\<open>checkForBoxes\<close> reports a box with that top left corner iff each of the four bounding edges
  of the cell is the edge (the unordered pair of end points) of some line of the sequence.
  The owner of the box is the player of the line at position \<open>k\<close>, where \<open>k\<close> is the highest
  insertion index of the four edges: an edge is inserted at the position where it first
  occurs, \<open>k\<close> is such a position for one of the four edges, and each of the four edges
  occurs at a position up to \<open>k\<close>. When no edge occurs twice in the sequence (the only
  sequences a game produces), \<open>k\<close> is the position of the last line in the sequence that lies
  on the boundary of the cell.
\<close>

theorem checkForBoxes_cell:
  assumes "r < GRID_SIZE - 1" and "c < GRID_SIZE - 1"
  shows "((\<exists>b\<in>set (checkForBoxes uuidv4 ls). topLeft b = \<lparr>row = int r, col = int c\<rparr>) \<longleftrightarrow>
          (\<forall>(s, e)\<in>set (cellEdges r c). \<exists>l\<in>set ls. {start l, end' l} = {s, e})) \<and>
         (\<forall>b\<in>set (checkForBoxes uuidv4 ls). topLeft b = \<lparr>row = int r, col = int c\<rparr> \<longrightarrow>
            (\<exists>k<length ls. player_box b = player (ls ! k) \<and>
               (\<exists>(s, e)\<in>set (cellEdges r c).
                   {start (ls ! k), end' (ls ! k)} = {s, e} \<and>
                   (\<forall>j<k. {start (ls ! j), end' (ls ! j)} \<noteq> {s, e})) \<and>
               (\<forall>(s, e)\<in>set (cellEdges r c). \<exists>i\<le>k. {start (ls ! i), end' (ls ! i)} = {s, e}) \<and>
               (distinct (map (\<lambda>l. {start l, end' l}) ls) \<longrightarrow>
                  (\<forall>j<length ls. (\<exists>(s, e)\<in>set (cellEdges r c). {start (ls ! j), end' (ls ! j)} = {s, e})
                      \<longrightarrow> j \<le> k))))"
proof (intro conjI ballI impI)
  have "(\<exists>b\<in>set (checkForBoxes uuidv4 ls). topLeft b = \<lparr>row = int r, col = int c\<rparr>) \<longleftrightarrow>
        (\<exists>p. \<exists>b\<in>set (checkForBoxes uuidv4 ls). topLeft b = \<lparr>row = int r, col = int c\<rparr> \<and> player_box b = p)"
    by blast
  also have "\<dots> \<longleftrightarrow> (\<exists>p. cellOwner ls r c = Some p)"
    using assms by (simp add: boxes_of_cell)
  also have "\<dots> \<longleftrightarrow> (\<forall>(s, e)\<in>set (cellEdges r c). \<exists>l\<in>set ls. {start l, end' l} = {s, e})"
    by (simp only: cellOwner_Some_iff cellEdges_joins)
  finally show "(\<exists>b\<in>set (checkForBoxes uuidv4 ls). topLeft b = \<lparr>row = int r, col = int c\<rparr>) \<longleftrightarrow>
          (\<forall>(s, e)\<in>set (cellEdges r c). \<exists>l\<in>set ls. {start l, end' l} = {s, e})" .
next
  fix b
  assume b: "b \<in> set (checkForBoxes uuidv4 ls)" "topLeft b = \<lparr>row = int r, col = int c\<rparr>"
  then have "cellOwner ls r c = Some (player_box b)"
    using boxes_of_cell [of uuidv4 ls r c "player_box b"] by blast
  from cellOwner_Some [OF this] obtain k where k: "k < length ls" "player_box b = player (ls ! k)"
    "\<exists>(s, e)\<in>set (cellEdges r c). joins (ls ! k) s e \<and> (\<forall>j<k. \<not> joins (ls ! j) s e)"
    "\<forall>(s, e)\<in>set (cellEdges r c). \<exists>i\<le>k. joins (ls ! i) s e"
    by blast
  have last: "j \<le> k"
    if d: "distinct (map (\<lambda>l. {start l, end' l}) ls)" and j: "j < length ls"
      and on: "\<exists>(s, e)\<in>set (cellEdges r c). {start (ls ! j), end' (ls ! j)} = {s, e}" for j
  proof -
    from on obtain s e where se: "(s, e) \<in> set (cellEdges r c)" "{start (ls ! j), end' (ls ! j)} = {s, e}"
      by blast
    with k(4) obtain i where i: "i \<le> k" "joins (ls ! i) s e" by blast
    then have "{start (ls ! i), end' (ls ! i)} = {start (ls ! j), end' (ls ! j)}"
      using se(2) by (simp add: joins_iff)
    moreover have "i < length ls" using i(1) k(1) by simp
    ultimately have "i = j"
      using d j by (auto simp: distinct_conv_nth)
    with i(1) show ?thesis by simp
  qed
  show "\<exists>k<length ls. player_box b = player (ls ! k) \<and>
               (\<exists>(s, e)\<in>set (cellEdges r c).
                   {start (ls ! k), end' (ls ! k)} = {s, e} \<and>
                   (\<forall>j<k. {start (ls ! j), end' (ls ! j)} \<noteq> {s, e})) \<and>
               (\<forall>(s, e)\<in>set (cellEdges r c). \<exists>i\<le>k. {start (ls ! i), end' (ls ! i)} = {s, e}) \<and>
               (distinct (map (\<lambda>l. {start l, end' l}) ls) \<longrightarrow>
                  (\<forall>j<length ls. (\<exists>(s, e)\<in>set (cellEdges r c). {start (ls ! j), end' (ls ! j)} = {s, e})
                      \<longrightarrow> j \<le> k))"
    using k last by (intro exI [of _ k]) (simp add: joins_iff)
qed

theorem checkForBoxes_cell_witness:
  "(0::nat) < GRID_SIZE - 1 \<and>
   (\<exists>b\<in>set (checkForBoxes uuid0 scenario).
       topLeft b = \<lparr>row = 0, col = 0\<rparr> \<and> player_box b = player (scenario ! 3)) \<and>
   player (scenario ! 3) = P2"
proof -
  have h: "(0::nat) < GRID_SIZE - 1" by (simp add: GRID_SIZE_def)
  note t = checkForBoxes_cell [OF h h, of uuid0 scenario]
  have "\<forall>(s, e)\<in>set (cellEdges 0 0). \<exists>l\<in>set scenario. {start l, end' l} = {s, e}"
    by (auto simp: cellEdges_def scenario_def mkLine_def)
  with t obtain b where b: "b \<in> set (checkForBoxes uuid0 scenario)"
    "topLeft b = \<lparr>row = int 0, col = int 0\<rparr>"
    by blast
  with t obtain k where k: "k < length scenario" "player_box b = player (scenario ! k)"
    "\<forall>(s, e)\<in>set (cellEdges 0 0). \<exists>i\<le>k. {start (scenario ! i), end' (scenario ! i)} = {s, e}"
    by blast
  from k(3) obtain i where i: "i \<le> k"
    "{start (scenario ! i), end' (scenario ! i)} = {\<lparr>row = 0, col = 0\<rparr>, \<lparr>row = 1, col = 0\<rparr>}"
    by (auto simp: cellEdges_def)
  have k4: "k < 4" using k(1) by (simp add: scenario_def)
  with i(1) consider "i = 0" | "i = 1" | "i = 2" | "i = 3" by linarith
  then have "i = 3"
    using i(2) by cases (auto simp: scenario_def mkLine_def doubleton_eq_iff)
  with i(1) k4 have "k = 3" by simp
  with k(2) have "player_box b = player (scenario ! 3)" by simp
  moreover have "player (scenario ! 3) = P2" by (simp add: scenario_def mkLine_def)
  ultimately show ?thesis using h b by auto
qed

section \<open>The concrete game is reachable\<close>

lemma room1_step: "make_move_room 1 uuid0 ''sock-a'' (mkLine 0 0 0 1 P1) room0 = Inr room1"
  by code_simp

lemma room2_step: "make_move_room 2 uuid0 ''sock-b'' (mkLine 0 1 1 1 P2) room1 = Inr room2"
  by code_simp

lemma room3_step: "make_move_room 3 uuid0 ''sock-a'' (mkLine 1 1 1 0 P1) room2 = Inr room3"
  by code_simp

lemma room4_step: "make_move_room 4 uuid0 ''sock-b'' (mkLine 1 0 0 0 P2) room3 = Inr room4"
  by code_simp

lemma reachable_room3: "reachable room3"
proof -
  have "reachable room0" unfolding room0_def by (rule reachable.start)
  from reachable.move [OF this room1_step] have "reachable room1" .
  from reachable.move [OF this room2_step] have "reachable room2" .
  from reachable.move [OF this room3_step] show ?thesis .
qed

lemma applied_room4: "appliedMove room3 ((mkLine 1 0 0 0 P2)\<lparr>timestamp := Some 4\<rparr>) room4"
  by (rule appliedMove.submitted [OF room4_step])

lemma reachable_room4: "reachable room4"
  by (rule reachable.move [OF reachable_room3 room4_step])

lemma appliedMove_inv:
  assumes "scoreInv (gameState room)" "appliedMove room mv room'"
  shows "scoreInv (gameState room')"
proof -
  from appliedMove_state [OF assms(2)] obtain u where
    "gameState room' = scoreMove u (currentPlayer (gameState room))
        ((gameState room)\<lparr>lines := lines (gameState room) @ [mv]\<rparr>) \<or>
     gameState room' = (scoreMove u (currentPlayer (gameState room))
        ((gameState room)\<lparr>lines := lines (gameState room) @ [mv]\<rparr>))\<lparr>timeLeft := TURN_TIME\<rparr>"
    by (auto simp: Let_def)
  then show ?thesis
    using scoreMove_inv [OF assms(1), of u "currentPlayer (gameState room)" mv]
    by (auto simp: scoreInv_timeLeft)
qed

text \<open>
  C2. In every reachable room the two scores add up to the number of boxes that
  \<^verbatim>\<open>checkForBoxes\<close> returns on the current lines, and the same holds in the room that any
  applied move (accepted from a player, or played by the timer) leaves.
\<close>

theorem score_sum_invariant:
  assumes "reachable room"
  shows "player1 (scores (gameState room)) + player2 (scores (gameState room)) =
           int (length (checkForBoxes uuidv4 (lines (gameState room)))) \<and>
         (\<forall>mv room'. appliedMove room mv room' \<longrightarrow>
            player1 (scores (gameState room')) + player2 (scores (gameState room')) =
              int (length (checkForBoxes uuidv4 (lines (gameState room')))))"
proof -
  have inv: "scoreInv (gameState room)" using assms by (rule scoreInv_reachable)
  then have "player1 (scores (gameState room)) + player2 (scores (gameState room)) =
           int (length (checkForBoxes uuidv4 (lines (gameState room))))"
    by (simp add: scoreInv_def length_checkForBoxes)
  moreover have "player1 (scores (gameState room')) + player2 (scores (gameState room')) =
              int (length (checkForBoxes uuidv4 (lines (gameState room'))))"
    if "appliedMove room mv room'" for mv room'
    using appliedMove_inv [OF inv that] by (simp add: scoreInv_def length_checkForBoxes)
  ultimately show ?thesis by blast
qed

theorem score_sum_invariant_witness:
  "reachable room3 \<and> appliedMove room3 ((mkLine 1 0 0 0 P2)\<lparr>timestamp := Some 4\<rparr>) room4 \<and>
   player1 (scores (gameState room3)) + player2 (scores (gameState room3)) =
     int (length (checkForBoxes uuid0 (lines (gameState room3)))) \<and>
   player1 (scores (gameState room4)) + player2 (scores (gameState room4)) =
     int (length (checkForBoxes uuid0 (lines (gameState room4)))) \<and>
   scores (gameState room3) = \<lparr>player1 = 0, player2 = 0\<rparr> \<and>
   scores (gameState room4) = \<lparr>player1 = 0, player2 = 1\<rparr>"
proof -
  have s3: "scores (gameState room3) = \<lparr>player1 = 0, player2 = 0\<rparr>" by code_simp
  have s4: "scores (gameState room4) = \<lparr>player1 = 0, player2 = 1\<rparr>" by code_simp
  show ?thesis
    using score_sum_invariant [OF reachable_room3, of uuid0] reachable_room3 applied_room4 s3 s4
    by blast
qed

text \<open>Lemmas for C4: the countdown of the timer, and the state after a played move.\<close>

lemma timerTick_count_down:
  assumes "1 < timeLeft (gameState room)"
  shows "timerTick k now u room =
           room\<lparr>gameState := (gameState room)\<lparr>timeLeft := timeLeft (gameState room) - 1\<rparr>\<rparr>"
  using assms by (simp add: timerTick_def Let_def)

lemma ticks_reachable:
  "reachable room \<Longrightarrow> turnTimer room \<Longrightarrow> int n < timeLeft (gameState room) \<Longrightarrow>
   reachable ((timerTick 0 now u ^^ n) room) \<and>
   (timerTick 0 now u ^^ n) room =
     room\<lparr>gameState := (gameState room)\<lparr>timeLeft := timeLeft (gameState room) - int n\<rparr>\<rparr>"
proof (induction n)
  case 0
  then show ?case by simp
next
  case (Suc n)
  let ?r = "(timerTick 0 now u ^^ n) room"
  have "int n < timeLeft (gameState room)" using Suc.prems(3) by simp
  note ih = Suc.IH [OF Suc.prems(1) Suc.prems(2) this]
  note r = ih [THEN conjunct1] and e = ih [THEN conjunct2]
  have tl: "timeLeft (gameState ?r) = timeLeft (gameState room) - int n"
    by (subst e) simp
  have tt: "turnTimer ?r" using Suc.prems(2) by (subst e) simp
  have gt: "1 < timeLeft (gameState ?r)" using tl Suc.prems(3) by simp
  have "getAvailableMoves (gameState ?r) = [] \<or> 0 < length (getAvailableMoves (gameState ?r))"
    by auto
  from reachable.tick [OF r tt this, of now u]
  have a: "reachable (timerTick 0 now u ?r)" .
  have "timerTick 0 now u ?r =
          ?r\<lparr>gameState := (gameState ?r)\<lparr>timeLeft := timeLeft (gameState ?r) - 1\<rparr>\<rparr>"
    by (rule timerTick_count_down [OF gt])
  also have "\<dots> =
     room\<lparr>gameState := (gameState room)\<lparr>timeLeft := timeLeft (gameState room) - int (Suc n)\<rparr>\<rparr>"
    by (subst (1 2 3) e) simp
  finally have b: "timerTick 0 now u ?r =
     room\<lparr>gameState := (gameState room)\<lparr>timeLeft := timeLeft (gameState room) - int (Suc n)\<rparr>\<rparr>" .
  have s: "(timerTick 0 now u ^^ Suc n) room = timerTick 0 now u ?r" by simp
  show ?case unfolding s using a b by (intro conjI)
qed

lemma lastSecondRoom_facts:
  "reachable lastSecondRoom"
  "lastSecondRoom = room0\<lparr>gameState := (gameState room0)\<lparr>timeLeft := 1\<rparr>\<rparr>"
proof -
  have r: "reachable room0" unfolding room0_def by (rule reachable.start)
  have t: "turnTimer room0" by code_simp
  have l: "timeLeft (gameState room0) = 30" by code_simp
  then have "int 29 < timeLeft (gameState room0)" by simp
  note f = ticks_reachable [OF r t this, of 0 uuid0]
  show "reachable lastSecondRoom" unfolding lastSecondRoom_def by (rule f [THEN conjunct1])
  show "lastSecondRoom = room0\<lparr>gameState := (gameState room0)\<lparr>timeLeft := 1\<rparr>\<rparr>"
    unfolding lastSecondRoom_def by (subst f [THEN conjunct2]) (simp add: l)
qed

lemma scoreMove_mover:
  "playedMove room mover mv room' \<Longrightarrow>
   mover = currentPlayer (gameState room) \<and> gameStatus (gameState room) = active \<and>
   (\<exists>u gs1. lines gs1 = lines (gameState room) @ [mv] \<and> boxes gs1 = boxes (gameState room) \<and>
        scores gs1 = scores (gameState room) \<and> currentPlayer gs1 = currentPlayer (gameState room) \<and>
        (gameState room' = scoreMove u mover gs1 \<or>
         gameState room' = (scoreMove u mover gs1)\<lparr>timeLeft := TURN_TIME\<rparr>))"
proof (induction rule: playedMove.induct)
  case (by_player sid room p mover now u mv room')
  from make_move_room_Inr [OF by_player(3)] by_player(1,2)
  have m: "mover = currentPlayer (gameState room)" and a: "gameStatus (gameState room) = active"
    and g: "gameState room' =
           (let g = scoreMove u (currentPlayer (gameState room))
                      ((gameState room)\<lparr>lines := lines (gameState room) @ [mv\<lparr>timestamp := Some now\<rparr>]\<rparr>)
            in if gameStatus g = active then g\<lparr>timeLeft := TURN_TIME\<rparr> else g)"
    by auto
  show ?case
    using m a g
    by (intro conjI exI [of _ u]
        exI [of _ "(gameState room)\<lparr>lines := lines (gameState room) @ [mv\<lparr>timestamp := Some now\<rparr>]\<rparr>"])
      (auto simp: Let_def)
next
  case (by_timer room k now u mv)
  let ?room2 = "clearTurnTimer (room\<lparr>gameState := (gameState room)\<lparr>timeLeft := timeLeft (gameState room) - 1\<rparr>\<rparr>)"
  let ?gs1 = "(gameState ?room2)\<lparr>lines := lines (gameState ?room2) @ [mv]\<rparr>"
  obtain room3 where m: "makeRandomMove k now u ?room2 = (Some mv, room3)"
    using by_timer(4) by (cases "makeRandomMove k now u ?room2") auto
  from makeRandomMove_Some(2) [OF m]
  have g3: "gameState room3 = scoreMove u (currentPlayer (gameState room)) ?gs1" by simp
  have t: "timerTick k now u room = (if gameStatus (gameState room3) = active then startTurnTimer room3 else room3)"
    using by_timer(2,3) m by (simp add: timerTick_def Let_def)
  show ?case
    using by_timer(2) g3 t
    by (intro conjI exI [of _ u] exI [of _ ?gs1]) auto
qed

text \<open>
  C4. For every reachable room and every move the server plays in it, accepted from the
  player whose turn it is or played for that player by the turn timer when the clock runs
  out: the game is active, the move is appended to the lines, and the number of closed
  boxes does not fall. When it rises, the score of the player who moved rises by the
  difference, the score of the other player is unchanged and the turn stays with the
  player who moved; when it stays the same, both scores are unchanged and the turn passes
  to the other player.
\<close>

theorem capture_rule:
  assumes "reachable room" and "playedMove room mover mv room'"
  shows "mover = currentPlayer (gameState room) \<and>
         gameStatus (gameState room) = active \<and>
         lines (gameState room') = lines (gameState room) @ [mv] \<and>
         length (checkForBoxes uuidv4 (lines (gameState room))) \<le>
           length (checkForBoxes uuidv4 (lines (gameState room'))) \<and>
         (length (checkForBoxes uuidv4 (lines (gameState room))) <
            length (checkForBoxes uuidv4 (lines (gameState room'))) \<longrightarrow>
            (mover = P1 \<longrightarrow>
               player1 (scores (gameState room')) =
                 player1 (scores (gameState room)) +
                   (int (length (checkForBoxes uuidv4 (lines (gameState room')))) -
                    int (length (checkForBoxes uuidv4 (lines (gameState room))))) \<and>
               player2 (scores (gameState room')) = player2 (scores (gameState room))) \<and>
            (mover = P2 \<longrightarrow>
               player2 (scores (gameState room')) =
                 player2 (scores (gameState room)) +
                   (int (length (checkForBoxes uuidv4 (lines (gameState room')))) -
                    int (length (checkForBoxes uuidv4 (lines (gameState room))))) \<and>
               player1 (scores (gameState room')) = player1 (scores (gameState room))) \<and>
            currentPlayer (gameState room') = mover) \<and>
         (length (checkForBoxes uuidv4 (lines (gameState room))) =
            length (checkForBoxes uuidv4 (lines (gameState room'))) \<longrightarrow>
            player1 (scores (gameState room')) = player1 (scores (gameState room)) \<and>
            player2 (scores (gameState room')) = player2 (scores (gameState room)) \<and>
            currentPlayer (gameState room') \<noteq> mover \<and>
            currentPlayer (gameState room') = (if mover = P1 then P2 else P1))"
proof -
  let ?gs = "gameState room"
  let ?n = "closedCount (lines ?gs)" and ?n' = "closedCount (lines ?gs @ [mv])"
  have inv: "scoreInv ?gs" using assms(1) by (rule scoreInv_reachable)
  from scoreMove_mover [OF assms(2)] obtain u gs1 where
    m: "mover = currentPlayer ?gs" and a: "gameStatus ?gs = active"
    and f: "lines gs1 = lines ?gs @ [mv]" "boxes gs1 = boxes ?gs" "scores gs1 = scores ?gs"
      "currentPlayer gs1 = currentPlayer ?gs"
    and g: "gameState room' = scoreMove u mover gs1 \<or>
            gameState room' = (scoreMove u mover gs1)\<lparr>timeLeft := TURN_TIME\<rparr>"
    by blast
  have b: "length (boxes gs1) = ?n" using inv f(2) by (simp add: scoreInv_def)
  have l: "lines (gameState room') = lines ?gs @ [mv]"
    using g f(1) by (auto simp: scoreMove_fields)
  have le: "?n \<le> ?n'" by (rule closedCount_append)
  have sg: "scores (gameState room') = scores (scoreMove u mover gs1)"
    and cg: "currentPlayer (gameState room') = currentPlayer (scoreMove u mover gs1)"
    using g by auto
  have cap: "(mover = P1 \<longrightarrow>
               player1 (scores (gameState room')) = player1 (scores ?gs) + (int ?n' - int ?n) \<and>
               player2 (scores (gameState room')) = player2 (scores ?gs)) \<and>
            (mover = P2 \<longrightarrow>
               player2 (scores (gameState room')) = player2 (scores ?gs) + (int ?n' - int ?n) \<and>
               player1 (scores (gameState room')) = player1 (scores ?gs)) \<and>
            currentPlayer (gameState room') = mover"
    if "?n < ?n'"
  proof -
    from that b f(1) have "length (boxes gs1) < closedCount (lines gs1)" by simp
    from scoreMove_capture [OF this, of u mover]
    have "scores (scoreMove u mover gs1) = addScore mover (int ?n' - int ?n) (scores ?gs)"
      and "currentPlayer (scoreMove u mover gs1) = mover"
      using b f m by simp_all
    then show ?thesis unfolding sg cg by (cases mover) (simp_all add: addScore_def)
  qed
  have nocap: "player1 (scores (gameState room')) = player1 (scores ?gs) \<and>
       player2 (scores (gameState room')) = player2 (scores ?gs) \<and>
       currentPlayer (gameState room') \<noteq> mover \<and>
       currentPlayer (gameState room') = (if mover = P1 then P2 else P1)"
    if "?n = ?n'"
  proof -
    from that b f(1) have "closedCount (lines gs1) \<le> length (boxes gs1)" by simp
    from scoreMove_no_capture [OF this, of u mover]
    have "scores (scoreMove u mover gs1) = scores ?gs"
      and "currentPlayer (scoreMove u mover gs1) = (if mover = P1 then P2 else P1)"
      using f by simp_all
    then show ?thesis unfolding sg cg by (cases mover) simp_all
  qed
  show ?thesis
    using m a l le cap nocap by (simp add: length_checkForBoxes)
qed

lemma played_room4:
  "playedMove room3 P2 ((mkLine 1 0 0 0 P2)\<lparr>timestamp := Some 4\<rparr>) room4"
proof -
  have p: "List.find (\<lambda>p. socketId p = ''sock-b'') (map snd (players room3)) =
             Some (bob\<lparr>playerNumber := Some P2\<rparr>)"
    by code_simp
  have n: "playerNumber (bob\<lparr>playerNumber := Some P2\<rparr>) = Some P2" by simp
  show ?thesis by (rule playedMove.by_player [OF p n room4_step])
qed

lemma played_by_timer:
  "playedMove lastSecondRoom P1 ((mkLine 0 0 0 1 P1)\<lparr>timestamp := Some 30\<rparr>)
     (timerTick 0 30 uuid0 lastSecondRoom)"
proof -
  have t: "turnTimer lastSecondRoom" unfolding lastSecondRoom_facts(2) by code_simp
  have l: "timeLeft (gameState lastSecondRoom) - 1 \<le> 0" unfolding lastSecondRoom_facts(2) by simp
  have a: "gameStatus (gameState lastSecondRoom) = active" unfolding lastSecondRoom_facts(2) by code_simp
  have c: "currentPlayer (gameState lastSecondRoom) = P1" unfolding lastSecondRoom_facts(2) by code_simp
  have m: "fst (makeRandomMove 0 30 uuid0
              (clearTurnTimer
                (lastSecondRoom\<lparr>gameState :=
                   (gameState lastSecondRoom)\<lparr>timeLeft := timeLeft (gameState lastSecondRoom) - 1\<rparr>\<rparr>))) =
           Some ((mkLine 0 0 0 1 P1)\<lparr>timestamp := Some 30\<rparr>)"
    unfolding lastSecondRoom_facts(2) by code_simp
  from playedMove.by_timer [OF t a l m] c show ?thesis by simp
qed

theorem capture_rule_witness:
  "reachable room3 \<and>
   playedMove room3 P2 ((mkLine 1 0 0 0 P2)\<lparr>timestamp := Some 4\<rparr>) room4 \<and>
   length (checkForBoxes uuid0 (lines (gameState room3))) = 0 \<and>
   length (checkForBoxes uuid0 (lines (gameState room4))) = 1 \<and>
   scores (gameState room3) = \<lparr>player1 = 0, player2 = 0\<rparr> \<and>
   player2 (scores (gameState room4)) = 1 \<and>
   player1 (scores (gameState room4)) = 0 \<and>
   currentPlayer (gameState room4) = P2 \<and>
   reachable lastSecondRoom \<and>
   playedMove lastSecondRoom P1 ((mkLine 0 0 0 1 P1)\<lparr>timestamp := Some 30\<rparr>)
     (timerTick 0 30 uuid0 lastSecondRoom) \<and>
   length (checkForBoxes uuid0 (lines (gameState lastSecondRoom))) = 0 \<and>
   length (checkForBoxes uuid0 (lines (gameState (timerTick 0 30 uuid0 lastSecondRoom)))) = 0 \<and>
   scores (gameState lastSecondRoom) = \<lparr>player1 = 0, player2 = 0\<rparr> \<and>
   player1 (scores (gameState (timerTick 0 30 uuid0 lastSecondRoom))) = 0 \<and>
   player2 (scores (gameState (timerTick 0 30 uuid0 lastSecondRoom))) = 0 \<and>
   currentPlayer (gameState (timerTick 0 30 uuid0 lastSecondRoom)) = P2"
proof -
  have n3: "length (checkForBoxes uuid0 (lines (gameState room3))) = 0" by code_simp
  have n4: "length (checkForBoxes uuid0 (lines (gameState room4))) = 1" by code_simp
  have s3: "scores (gameState room3) = \<lparr>player1 = 0, player2 = 0\<rparr>" by code_simp
  have rl: "reachable lastSecondRoom" by (rule lastSecondRoom_facts(1))
  have nl: "length (checkForBoxes uuid0 (lines (gameState lastSecondRoom))) = 0"
    unfolding lastSecondRoom_facts(2) by code_simp
  have nt: "length (checkForBoxes uuid0 (lines (gameState (timerTick 0 30 uuid0 lastSecondRoom)))) = 0"
    unfolding lastSecondRoom_facts(2) by code_simp
  have sl: "scores (gameState lastSecondRoom) = \<lparr>player1 = 0, player2 = 0\<rparr>"
    unfolding lastSecondRoom_facts(2) by code_simp
  note c1 = capture_rule [OF reachable_room3 played_room4, of uuid0]
  note c2 = capture_rule [OF rl played_by_timer, of uuid0]
  have w1: "player2 (scores (gameState room4)) = 1 \<and> player1 (scores (gameState room4)) = 0 \<and>
            currentPlayer (gameState room4) = P2"
    using c1 n3 n4 s3 by simp
  have w2: "player1 (scores (gameState (timerTick 0 30 uuid0 lastSecondRoom))) = 0 \<and>
            player2 (scores (gameState (timerTick 0 30 uuid0 lastSecondRoom))) = 0 \<and>
            currentPlayer (gameState (timerTick 0 30 uuid0 lastSecondRoom)) = P2"
    using c2 nl nt sl by simp
  show ?thesis
    using reachable_room3 played_room4 n3 n4 s3 w1 rl played_by_timer nl nt sl w2 by simp
qed

text \<open>
  C5. When an applied move leaves all \<open>(N-1)\<^sup>2 = 25\<close> boxes closed, the game status is
  \<open>ended\<close> and the winner is the player with the strictly higher score, or none when the
  scores are equal. This holds from every room, reachable or not.
\<close>

theorem game_ends_when_all_boxes_closed:
  assumes "appliedMove room mv room'"
    and "length (checkForBoxes uuidv4 (lines (gameState room'))) = TOTAL_BOXES"
  shows "TOTAL_BOXES = 25 \<and> gameStatus (gameState room') = ended \<and>
         winner (gameState room') =
           (if player1 (scores (gameState room')) > player2 (scores (gameState room')) then Some P1
            else if player2 (scores (gameState room')) > player1 (scores (gameState room')) then Some P2
            else None)"
proof -
  let ?gs1 = "(gameState room)\<lparr>lines := lines (gameState room) @ [mv]\<rparr>"
  from appliedMove_state [OF assms(1)] obtain u where
    g: "gameState room' = scoreMove u (currentPlayer (gameState room)) ?gs1 \<or>
        gameState room' = (scoreMove u (currentPlayer (gameState room)) ?gs1)\<lparr>timeLeft := TURN_TIME\<rparr>"
    by (auto simp: Let_def)
  then have "lines (gameState room') = lines ?gs1" by (auto simp: scoreMove_fields)
  with assms(2) have "TOTAL_BOXES \<le> closedCount (lines ?gs1)"
    by (simp add: length_checkForBoxes)
  from scoreMove_end [OF this, of u "currentPlayer (gameState room)"] g
  have "gameStatus (gameState room') = ended \<and>
         winner (gameState room') =
           (if player1 (scores (gameState room')) > player2 (scores (gameState room')) then Some P1
            else if player2 (scores (gameState room')) > player1 (scores (gameState room')) then Some P2
            else None)"
    by auto
  moreover have "TOTAL_BOXES = 25" by (simp add: TOTAL_BOXES_def GRID_SIZE_def)
  ultimately show ?thesis by simp
qed

lemma endedRoom_step:
  "make_move_room 9 uuid0 ''sock-a'' (mkLine 5 4 5 5 P1) lastMoveRoom = Inr endedRoom"
  by code_simp

theorem game_ends_when_all_boxes_closed_witness:
  "appliedMove lastMoveRoom ((mkLine 5 4 5 5 P1)\<lparr>timestamp := Some 9\<rparr>) endedRoom \<and>
   length (checkForBoxes uuid0 (lines (gameState lastMoveRoom))) = 24 \<and>
   length (checkForBoxes uuid0 (lines (gameState endedRoom))) = TOTAL_BOXES \<and>
   scores (gameState endedRoom) = \<lparr>player1 = 13, player2 = 12\<rparr> \<and>
   gameStatus (gameState lastMoveRoom) = active \<and>
   gameStatus (gameState endedRoom) = ended \<and>
   winner (gameState endedRoom) = Some P1"
proof -
  have a: "appliedMove lastMoveRoom ((mkLine 5 4 5 5 P1)\<lparr>timestamp := Some 9\<rparr>) endedRoom"
    by (rule appliedMove.submitted [OF endedRoom_step])
  have n0: "length (checkForBoxes uuid0 (lines (gameState lastMoveRoom))) = 24" by code_simp
  have n: "length (checkForBoxes uuid0 (lines (gameState endedRoom))) = TOTAL_BOXES" by code_simp
  have s: "scores (gameState endedRoom) = \<lparr>player1 = 13, player2 = 12\<rparr>" by code_simp
  have st: "gameStatus (gameState lastMoveRoom) = active" by code_simp
  show ?thesis
    using game_ends_when_all_boxes_closed [OF a n] a n0 n s st by simp
qed

text \<open>
  C10. In every reachable room whose game is active, \<^verbatim>\<open>getAvailableMoves\<close> returns a
  non-empty list, so \<^verbatim>\<open>makeRandomMove\<close> does not return \<^verbatim>\<open>null\<close> there.
\<close>

theorem active_room_has_moves:
  assumes "reachable room" and "gameStatus (gameState room) = active"
  shows "getAvailableMoves (gameState room) \<noteq> [] \<and>
         fst (makeRandomMove k now uuidv4 room) \<noteq> None"
proof -
  from scoreInv_reachable [OF assms(1)] assms(2)
  have "closedCount (lines (gameState room)) < TOTAL_BOXES"
    by (simp add: scoreInv_def)
  then have "getAvailableMoves (gameState room) \<noteq> []"
    using no_moves_all_boxes [of "gameState room" uuidv4] by (auto simp: length_checkForBoxes)
  then show ?thesis by (simp add: makeRandomMove_fst)
qed

theorem active_room_has_moves_witness:
  "reachable room4 \<and> gameStatus (gameState room4) = active \<and>
   length (getAvailableMoves (gameState room4)) = 56 \<and>
   getAvailableMoves (gameState room4) \<noteq> [] \<and>
   fst (makeRandomMove 0 5 uuid0 room4) \<noteq> None"
proof -
  have a: "gameStatus (gameState room4) = active" by code_simp
  have n: "length (getAvailableMoves (gameState room4)) = 56" by code_simp
  show ?thesis
    using active_room_has_moves [OF reachable_room4 a, of 0 5 uuid0] reachable_room4 a n by simp
qed



text \<open>The functions with events return the rooms of the functions without.\<close>

lemma makeRandomMove_io_result:
  "makeRandomMove_io k now u room = Inr (r, es) \<Longrightarrow> r = makeRandomMove k now u room"
  by (auto simp: makeRandomMove_io_def makeRandomMove_def Let_def split: if_splits)

lemma timerTick_io_result:
  assumes "timerTick_io k now u room = Inr (r, es)"
  shows "r = timerTick k now u room"
proof -
  let ?room2 = "clearTurnTimer (room\<lparr>gameState := (gameState room)\<lparr>timeLeft := timeLeft (gameState room) - 1\<rparr>\<rparr>)"
  show ?thesis
  proof (cases "makeRandomMove_io k now u ?room2")
    case (Inl t)
    with assms show ?thesis
      by (auto simp: timerTick_io_def timerTick_def Let_def split: if_splits)
  next
    case (Inr x)
    obtain r' es' where x: "x = (r', es')" by (cases x)
    from Inr x have "r' = makeRandomMove k now u ?room2" by (simp add: makeRandomMove_io_result)
    with assms Inr x show ?thesis
      by (auto simp: timerTick_io_def timerTick_def Let_def split: if_splits)
  qed
qed







lemma make_move_room_cases:
  assumes "List.find (\<lambda>p. socketId p = sid) (map snd (players room)) = Some p"
  shows "playerNumber p \<noteq> Some (currentPlayer (gameState room)) \<or> gameStatus (gameState room) \<noteq> active \<Longrightarrow>
           make_move_room now u sid mv room = Inl NotYourTurnOrNotActive"
    and "playerNumber p = Some (currentPlayer (gameState room)) \<Longrightarrow> gameStatus (gameState room) = active \<Longrightarrow>
           isLineAlreadyDrawn (gameState room) mv \<Longrightarrow> make_move_room now u sid mv room = Inl LineAlreadyDrawn"
    and "playerNumber p = Some (currentPlayer (gameState room)) \<Longrightarrow> gameStatus (gameState room) = active \<Longrightarrow>
           \<not> isLineAlreadyDrawn (gameState room) mv \<Longrightarrow>
           \<exists>room'. make_move_room now u sid mv room = Inr room' \<and>
              lines (gameState room') = lines (gameState room) @ [mv\<lparr>timestamp := Some now\<rparr>] \<and>
              boxes (gameState room') = checkForBoxes u (lines (gameState room')) \<and>
              isPaused (gameState room') = isPaused (gameState room)"
  using assms by (auto simp: make_move_room_def Let_def scoreMove_fields)

lemma isLineAlreadyDrawn_edge:
  "isLineAlreadyDrawn gs mv \<longleftrightarrow> (\<exists>l\<in>set (lines gs). {start l, end' l} = {start mv, end' mv})"
  by (simp add: isLineAlreadyDrawn_iff joins_iff)

lemma make_move_room_None:
  "List.find (\<lambda>p. socketId p = sid) (map snd (players room)) = None \<Longrightarrow>
   make_move_room now u sid mv room = Inl NotInRoom"
  by (simp add: make_move_room_def)

lemma make_move_lift:
  "map_of (gameRooms srv) rid = Some room \<Longrightarrow>
   make_move now u sid rid mv srv =
     (case make_move_room now u sid mv room of Inl m \<Rightarrow> Inl m
      | Inr room' \<Rightarrow> Inr (srv\<lparr>gameRooms := AList.update rid room' (gameRooms srv)\<rparr>))"
  by (simp add: make_move_def)

text \<open>
  C9. \<^verbatim>\<open>isLineAlreadyDrawn\<close> gives the same answer for a move and for the move with start
  and end swapped; it holds for every move whose two end points are those of a line already
  drawn; and such a move is rejected by the \<^verbatim>\<open>make_move\<close> handler, with the duplicate error
  when the sender is the current player of an active game.
\<close>

theorem duplicate_edge_either_orientation:
  "(isLineAlreadyDrawn gs mv \<longleftrightarrow> isLineAlreadyDrawn gs (mv\<lparr>start := end' mv, end' := start mv\<rparr>)) \<and>
   (\<forall>l\<in>set (lines gs). {start mv, end' mv} = {start l, end' l} \<longrightarrow> isLineAlreadyDrawn gs mv) \<and>
   (\<forall>room. map_of (gameRooms srv) rid = Some room \<longrightarrow>
      (\<forall>l\<in>set (lines (gameState room)). {start mv, end' mv} = {start l, end' l} \<longrightarrow>
         isl (make_move now uuidv4 sid rid mv srv) \<and>
         (\<forall>p. List.find (\<lambda>p. socketId p = sid) (map snd (players room)) = Some p \<and>
              playerNumber p = Some (currentPlayer (gameState room)) \<and>
              gameStatus (gameState room) = active \<longrightarrow>
              make_move now uuidv4 sid rid mv srv = Inl LineAlreadyDrawn)))"
proof (intro conjI allI impI ballI)
  show "isLineAlreadyDrawn gs mv \<longleftrightarrow> isLineAlreadyDrawn gs (mv\<lparr>start := end' mv, end' := start mv\<rparr>)"
    by (simp add: isLineAlreadyDrawn_edge insert_commute)
next
  fix l assume "l \<in> set (lines gs)" "{start mv, end' mv} = {start l, end' l}"
  then show "isLineAlreadyDrawn gs mv" unfolding isLineAlreadyDrawn_edge by metis
next
  fix room l
  assume r: "map_of (gameRooms srv) rid = Some room"
    and l: "l \<in> set (lines (gameState room))" "{start mv, end' mv} = {start l, end' l}"
  from l have d: "isLineAlreadyDrawn (gameState room) mv" unfolding isLineAlreadyDrawn_edge by metis
  show "isl (make_move now uuidv4 sid rid mv srv)"
  proof (cases "List.find (\<lambda>p. socketId p = sid) (map snd (players room))")
    case None
    then show ?thesis by (simp add: make_move_lift [OF r] make_move_room_None)
  next
    case (Some p)
    show ?thesis
    proof (cases "playerNumber p = Some (currentPlayer (gameState room)) \<and> gameStatus (gameState room) = active")
      case True
      then show ?thesis
        using make_move_room_cases(2) [OF Some _ _ d, of now uuidv4]
        by (simp add: make_move_lift [OF r])
    next
      case False
      then show ?thesis
        using make_move_room_cases(1) [OF Some, of now uuidv4 mv]
        by (auto simp: make_move_lift [OF r])
    qed
  qed
next
  fix room l p
  assume r: "map_of (gameRooms srv) rid = Some room"
    and l: "l \<in> set (lines (gameState room))" "{start mv, end' mv} = {start l, end' l}"
    and p: "List.find (\<lambda>p. socketId p = sid) (map snd (players room)) = Some p \<and>
              playerNumber p = Some (currentPlayer (gameState room)) \<and>
              gameStatus (gameState room) = active"
  from l have d: "isLineAlreadyDrawn (gameState room) mv" unfolding isLineAlreadyDrawn_edge by metis
  from p have "make_move_room now uuidv4 sid mv room = Inl LineAlreadyDrawn"
    using d by (intro make_move_room_cases(2) [where p = p]) simp_all
  then show "make_move now uuidv4 sid rid mv srv = Inl LineAlreadyDrawn"
    by (simp add: make_move_lift [OF r])
qed

theorem duplicate_edge_either_orientation_witness:
  "map_of (gameRooms srv1) ''room-1'' = Some room1 \<and>
   lines (gameState room1) = [(mkLine 0 0 0 1 P1)\<lparr>timestamp := Some 1\<rparr>] \<and>
   isLineAlreadyDrawn (gameState room1) (mkLine 0 1 0 0 P2) \<and>
   isLineAlreadyDrawn (gameState room1) (mkLine 0 0 0 1 P2) \<and>
   make_move 2 uuid0 ''sock-b'' ''room-1'' (mkLine 0 1 0 0 P2) srv1 = Inl LineAlreadyDrawn \<and>
   make_move 2 uuid0 ''sock-b'' ''room-1'' (mkLine 0 0 0 1 P2) srv1 = Inl LineAlreadyDrawn"
proof -
  have r: "map_of (gameRooms srv1) ''room-1'' = Some room1" by (simp add: srv1_def)
  have ls: "lines (gameState room1) = [(mkLine 0 0 0 1 P1)\<lparr>timestamp := Some 1\<rparr>]" by code_simp
  have p: "List.find (\<lambda>p. socketId p = ''sock-b'') (map snd (players room1)) = Some (bob\<lparr>playerNumber := Some P2\<rparr>)"
    by code_simp
  have c: "playerNumber (bob\<lparr>playerNumber := Some P2\<rparr>) = Some (currentPlayer (gameState room1))"
    by code_simp
  have a: "gameStatus (gameState room1) = active" by code_simp
  have e1: "{start (mkLine 0 1 0 0 P2), end' (mkLine 0 1 0 0 P2)} =
            {start ((mkLine 0 0 0 1 P1)\<lparr>timestamp := Some 1\<rparr>), end' ((mkLine 0 0 0 1 P1)\<lparr>timestamp := Some 1\<rparr>)}"
    by (auto simp: mkLine_def)
  have e2: "{start (mkLine 0 0 0 1 P2), end' (mkLine 0 0 0 1 P2)} =
            {start ((mkLine 0 0 0 1 P1)\<lparr>timestamp := Some 1\<rparr>), end' ((mkLine 0 0 0 1 P1)\<lparr>timestamp := Some 1\<rparr>)}"
    by (auto simp: mkLine_def)
  note t1 = duplicate_edge_either_orientation [of "gameState room1" "mkLine 0 1 0 0 P2" srv1 "''room-1''" 2 uuid0 "''sock-b''"]
  note t2 = duplicate_edge_either_orientation [of "gameState room1" "mkLine 0 0 0 1 P2" srv1 "''room-1''" 2 uuid0 "''sock-b''"]
  have in1: "(mkLine 0 0 0 1 P1)\<lparr>timestamp := Some 1\<rparr> \<in> set (lines (gameState room1))"
    by (simp add: ls)
  have d1: "isLineAlreadyDrawn (gameState room1) (mkLine 0 1 0 0 P2)"
    by (rule t1 [THEN conjunct2, THEN conjunct1, rule_format, OF in1 e1])
  have d2: "isLineAlreadyDrawn (gameState room1) (mkLine 0 0 0 1 P2)"
    by (rule t2 [THEN conjunct2, THEN conjunct1, rule_format, OF in1 e2])
  have pc: "List.find (\<lambda>p. socketId p = ''sock-b'') (map snd (players room1)) =
              Some (bob\<lparr>playerNumber := Some P2\<rparr>) \<and>
            playerNumber (bob\<lparr>playerNumber := Some P2\<rparr>) = Some (currentPlayer (gameState room1)) \<and>
            gameStatus (gameState room1) = active"
    by (intro conjI) (rule p, rule c, rule a)
  have m1: "make_move 2 uuid0 ''sock-b'' ''room-1'' (mkLine 0 1 0 0 P2) srv1 = Inl LineAlreadyDrawn"
    by (rule t1 [THEN conjunct2, THEN conjunct2, rule_format, OF r in1 e1, THEN conjunct2, rule_format, OF pc])
  have m2: "make_move 2 uuid0 ''sock-b'' ''room-1'' (mkLine 0 0 0 1 P2) srv1 = Inl LineAlreadyDrawn"
    by (rule t2 [THEN conjunct2, THEN conjunct2, rule_format, OF r in1 e2, THEN conjunct2, rule_format, OF pc])
  show ?thesis using r ls d1 d2 m1 m2 by simp
qed

text \<open>
  C1, as amended. The \<^verbatim>\<open>make_move\<close> handler fails when the room is unknown, when the sender
  is not in the room, when it is not the sender's turn or the game is not active, and when
  the move joins the two end points of a line already drawn; in every other case, whatever
  the pause flag and the coordinates of the move, it appends the move with the server's
  time stamp, recomputes the boxes and leaves the pause flag as it was. The claim as
  stated fails: a move of the current player is accepted in a paused game, and a move
  outside the 6 x 6 grid is accepted.
\<close>

theorem make_move_outcome:
  "(map_of (gameRooms srv) rid = None \<longrightarrow> make_move now uuidv4 sid rid mv srv = Inl RoomNotFound) \<and>
   (\<forall>room. map_of (gameRooms srv) rid = Some room \<longrightarrow>
      (List.find (\<lambda>p. socketId p = sid) (map snd (players room)) = None \<longrightarrow>
         make_move now uuidv4 sid rid mv srv = Inl NotInRoom) \<and>
      (\<forall>p. List.find (\<lambda>p. socketId p = sid) (map snd (players room)) = Some p \<longrightarrow>
         (playerNumber p \<noteq> Some (currentPlayer (gameState room)) \<or>
          gameStatus (gameState room) \<noteq> active \<longrightarrow>
            make_move now uuidv4 sid rid mv srv = Inl NotYourTurnOrNotActive) \<and>
         (playerNumber p = Some (currentPlayer (gameState room)) \<and>
          gameStatus (gameState room) = active \<and>
          (\<exists>l\<in>set (lines (gameState room)). {start l, end' l} = {start mv, end' mv}) \<longrightarrow>
            make_move now uuidv4 sid rid mv srv = Inl LineAlreadyDrawn) \<and>
         (playerNumber p = Some (currentPlayer (gameState room)) \<and>
          gameStatus (gameState room) = active \<and>
          \<not> (\<exists>l\<in>set (lines (gameState room)). {start l, end' l} = {start mv, end' mv}) \<longrightarrow>
            (\<exists>room'. make_move now uuidv4 sid rid mv srv =
                        Inr (srv\<lparr>gameRooms := AList.update rid room' (gameRooms srv)\<rparr>) \<and>
                lines (gameState room') = lines (gameState room) @ [mv\<lparr>timestamp := Some now\<rparr>] \<and>
                boxes (gameState room') = checkForBoxes uuidv4 (lines (gameState room')) \<and>
                isPaused (gameState room') = isPaused (gameState room)))))"
proof (intro conjI allI impI)
  assume "map_of (gameRooms srv) rid = None"
  then show "make_move now uuidv4 sid rid mv srv = Inl RoomNotFound" by (simp add: make_move_def)
next
  fix room
  assume "map_of (gameRooms srv) rid = Some room"
    and "List.find (\<lambda>p. socketId p = sid) (map snd (players room)) = None"
  then show "make_move now uuidv4 sid rid mv srv = Inl NotInRoom"
    by (simp add: make_move_lift make_move_room_None)
next
  fix room p
  assume r: "map_of (gameRooms srv) rid = Some room"
    and p: "List.find (\<lambda>p. socketId p = sid) (map snd (players room)) = Some p"
    and c: "playerNumber p \<noteq> Some (currentPlayer (gameState room)) \<or> gameStatus (gameState room) \<noteq> active"
  from make_move_room_cases(1) [OF p c]
  show "make_move now uuidv4 sid rid mv srv = Inl NotYourTurnOrNotActive"
    by (simp add: make_move_lift [OF r])
next
  fix room p
  assume r: "map_of (gameRooms srv) rid = Some room"
    and p: "List.find (\<lambda>p. socketId p = sid) (map snd (players room)) = Some p"
    and c: "playerNumber p = Some (currentPlayer (gameState room)) \<and>
          gameStatus (gameState room) = active \<and>
          (\<exists>l\<in>set (lines (gameState room)). {start l, end' l} = {start mv, end' mv})"
  then have "make_move_room now uuidv4 sid mv room = Inl LineAlreadyDrawn"
    by (intro make_move_room_cases(2) [OF p]) (simp_all add: isLineAlreadyDrawn_edge)
  then show "make_move now uuidv4 sid rid mv srv = Inl LineAlreadyDrawn"
    by (simp add: make_move_lift [OF r])
next
  fix room p
  assume r: "map_of (gameRooms srv) rid = Some room"
    and p: "List.find (\<lambda>p. socketId p = sid) (map snd (players room)) = Some p"
    and c: "playerNumber p = Some (currentPlayer (gameState room)) \<and>
          gameStatus (gameState room) = active \<and>
          \<not> (\<exists>l\<in>set (lines (gameState room)). {start l, end' l} = {start mv, end' mv})"
  then have "\<exists>room'. make_move_room now uuidv4 sid mv room = Inr room' \<and>
              lines (gameState room') = lines (gameState room) @ [mv\<lparr>timestamp := Some now\<rparr>] \<and>
              boxes (gameState room') = checkForBoxes uuidv4 (lines (gameState room')) \<and>
              isPaused (gameState room') = isPaused (gameState room)"
    by (intro make_move_room_cases(3) [OF p]) (simp_all add: isLineAlreadyDrawn_edge)
  then show "\<exists>room'. make_move now uuidv4 sid rid mv srv =
                        Inr (srv\<lparr>gameRooms := AList.update rid room' (gameRooms srv)\<rparr>) \<and>
                lines (gameState room') = lines (gameState room) @ [mv\<lparr>timestamp := Some now\<rparr>] \<and>
                boxes (gameState room') = checkForBoxes uuidv4 (lines (gameState room')) \<and>
                isPaused (gameState room') = isPaused (gameState room)"
    by (auto simp: make_move_lift [OF r])
qed

theorem make_move_outcome_witness:
  "map_of (gameRooms srvPaused) ''room-1'' = Some pausedRoom \<and>
   isPaused (gameState pausedRoom) \<and>
   lines (gameState pausedRoom) = [] \<and>
   (\<exists>room'. make_move 2 uuid0 ''sock-a'' ''room-1'' (mkLine 6 6 6 7 P1) srvPaused =
               Inr (srvPaused\<lparr>gameRooms := AList.update ''room-1'' room' (gameRooms srvPaused)\<rparr>) \<and>
             lines (gameState room') = [(mkLine 6 6 6 7 P1)\<lparr>timestamp := Some 2\<rparr>] \<and>
             isPaused (gameState room')) \<and>
   make_move 2 uuid0 ''sock-b'' ''room-1'' (mkLine 0 0 0 1 P2) srvPaused = Inl NotYourTurnOrNotActive"
proof -
  have r: "map_of (gameRooms srvPaused) ''room-1'' = Some pausedRoom" by (simp add: srvPaused_def)
  have z: "isPaused (gameState pausedRoom)" by code_simp
  have ls: "lines (gameState pausedRoom) = []" by code_simp
  have pa: "List.find (\<lambda>p. socketId p = ''sock-a'') (map snd (players pausedRoom)) =
              Some (alice\<lparr>playerNumber := Some P1\<rparr>)"
    by code_simp
  have pb: "List.find (\<lambda>p. socketId p = ''sock-b'') (map snd (players pausedRoom)) =
              Some (bob\<lparr>playerNumber := Some P2\<rparr>)"
    by code_simp
  have ca: "playerNumber (alice\<lparr>playerNumber := Some P1\<rparr>) = Some (currentPlayer (gameState pausedRoom)) \<and>
            gameStatus (gameState pausedRoom) = active \<and>
            \<not> (\<exists>l\<in>set (lines (gameState pausedRoom)).
                  {start l, end' l} = {start (mkLine 6 6 6 7 P1), end' (mkLine 6 6 6 7 P1)})"
  proof (intro conjI)
    show "playerNumber (alice\<lparr>playerNumber := Some P1\<rparr>) = Some (currentPlayer (gameState pausedRoom))"
      by code_simp
    show "gameStatus (gameState pausedRoom) = active" by code_simp
    show "\<not> (\<exists>l\<in>set (lines (gameState pausedRoom)).
                  {start l, end' l} = {start (mkLine 6 6 6 7 P1), end' (mkLine 6 6 6 7 P1)})"
      by (simp add: ls)
  qed
  have cb: "playerNumber (bob\<lparr>playerNumber := Some P2\<rparr>) \<noteq> Some (currentPlayer (gameState pausedRoom)) \<or>
            gameStatus (gameState pausedRoom) \<noteq> active"
  proof (rule disjI1)
    show "playerNumber (bob\<lparr>playerNumber := Some P2\<rparr>) \<noteq> Some (currentPlayer (gameState pausedRoom))"
      by code_simp
  qed
  note t = make_move_outcome [of srvPaused "''room-1''" 2 uuid0 "''sock-a''" "mkLine 6 6 6 7 P1",
      THEN conjunct2, rule_format, OF r, THEN conjunct2, rule_format, OF pa,
      THEN conjunct2, THEN conjunct2, rule_format, OF ca]
  note f = make_move_outcome [of srvPaused "''room-1''" 2 uuid0 "''sock-b''" "mkLine 0 0 0 1 P2",
      THEN conjunct2, rule_format, OF r, THEN conjunct2, rule_format, OF pb,
      THEN conjunct1, rule_format, OF cb]
  from t z ls have "\<exists>room'. make_move 2 uuid0 ''sock-a'' ''room-1'' (mkLine 6 6 6 7 P1) srvPaused =
               Inr (srvPaused\<lparr>gameRooms := AList.update ''room-1'' room' (gameRooms srvPaused)\<rparr>) \<and>
             lines (gameState room') = [(mkLine 6 6 6 7 P1)\<lparr>timestamp := Some 2\<rparr>] \<and>
             isPaused (gameState room')"
    by auto
  with r z ls f show ?thesis by blast
qed

theorem make_move_counterexample:
  "gameStatus (gameState pausedRoom) = active \<and>
   currentPlayer (gameState pausedRoom) = P1 \<and>
   isPaused (gameState pausedRoom) \<and>
   \<not> isl (make_move 2 uuid0 ''sock-a'' ''room-1'' (mkLine 0 0 0 1 P1) srvPaused) \<and>
   map (\<lambda>r. lines (gameState (snd r)))
     (gameRooms (projr (make_move 2 uuid0 ''sock-a'' ''room-1'' (mkLine 0 0 0 1 P1) srvPaused))) =
     [[(mkLine 0 0 0 1 P1)\<lparr>timestamp := Some 2\<rparr>]] \<and>
   \<not> isPaused (gameState room0) \<and>
   \<not> (0 \<le> row (start (mkLine 6 6 6 7 P1)) \<and> row (start (mkLine 6 6 6 7 P1)) < int GRID_SIZE) \<and>
   \<not> isl (make_move 1 uuid0 ''sock-a'' ''room-1'' (mkLine 6 6 6 7 P1) srv0) \<and>
   map (\<lambda>r. lines (gameState (snd r)))
     (gameRooms (projr (make_move 1 uuid0 ''sock-a'' ''room-1'' (mkLine 6 6 6 7 P1) srv0))) =
     [[(mkLine 6 6 6 7 P1)\<lparr>timestamp := Some 1\<rparr>]]"
  by code_simp

text \<open>
  C8, at the failing input. The socket of a player of the live room \<open>room0\<close> asks to join the
  queue: the handler answers that the player is already in a room, then goes on, puts the
  player in the queue and answers with success.
\<close>

theorem join_queue_in_room_enqueues:
  "map_of (gameRooms srv0) ''room-1'' = Some room0 \<and>
   map fst (players room0) = [''sock-a'', ''sock-b''] \<and>
   gameStatus (gameState room0) = active \<and>
   matchmakingQueue srv0 = [] \<and>
   fst (join_queue db0 5 ''room-2'' ''sock-a'' ''alice'' None srv0) =
     [\<lparr>success = False, message = Some AlreadyInRoom\<rparr>,
      \<lparr>success = True, message = Some EnteredQueue\<rparr>] \<and>
   map socketId (matchmakingQueue (snd (join_queue db0 5 ''room-2'' ''sock-a'' ''alice'' None srv0))) =
     [''sock-a'']"
  by code_simp

end
